theory Spec2Isabelle
  imports Complex_Main "HOL-Library.Word"
begin

unbundle bit_operations_syntax

section \<open>JavaScript primitives used by the point-cloud page\<close>

text \<open>
  Index arithmetic of the sources (frame, pixel and byte indices, buffer sizes) is carried
  out on integers; they are modelled as \<open>int\<close>.  A result that JavaScript reports as
  \<open>NaN\<close> or \<open>\<plusminus>Infinity\<close> is the value \<open>None\<close>.
\<close>

text \<open>The remainder operator \<open>a % b\<close>: truncated, the sign follows the dividend.\<close>

definition js_rem :: "int \<Rightarrow> int \<Rightarrow> int option" where
  "js_rem a b = (if b = 0 then None else Some (sgn a * (\<bar>a\<bar> mod \<bar>b\<bar>)))"

text \<open>\<open>Math.floor(a / b)\<close>.\<close>

definition js_floor_div :: "int \<Rightarrow> int \<Rightarrow> int option" where
  "js_floor_div a b = (if b = 0 then None else Some (a div b))"

text \<open>\<open>for (let i = lo; i < hi; i++) body\<close>, the loop state passed explicitly.\<close>

function for_loop :: "int \<Rightarrow> int \<Rightarrow> (int \<Rightarrow> 's \<Rightarrow> 's) \<Rightarrow> 's \<Rightarrow> 's" where
  "for_loop i hi body s = (if i < hi then for_loop (i + 1) hi body (body i s) else s)"
  by pat_completeness auto
termination
  by (relation "measure (\<lambda>(i, hi, body, s). nat (hi - i))") auto

declare for_loop.simps [simp del]

text \<open>
  Typed arrays (\<open>Uint8Array\<close>, \<open>Float32Array\<close>): a read outside the array is
  \<open>undefined\<close> (\<open>None\<close>), a write outside the array is ignored, and \<open>undefined\<close>
  stored into a \<open>Uint8Array\<close> becomes 0.
\<close>

type_synonym byte = "8 word"

definition typed_get :: "'a list \<Rightarrow> int option \<Rightarrow> 'a option" where
  "typed_get xs i =
     (case i of None \<Rightarrow> None
      | Some j \<Rightarrow> if 0 \<le> j \<and> j < int (length xs) then Some (xs ! nat j) else None)"

definition typed_set :: "'a list \<Rightarrow> int option \<Rightarrow> 'a \<Rightarrow> 'a list" where
  "typed_set xs i v =
     (case i of None \<Rightarrow> xs
      | Some j \<Rightarrow> if 0 \<le> j \<and> j < int (length xs) then xs[nat j := v] else xs)"

definition to_uint8 :: "byte option \<Rightarrow> byte" where
  "to_uint8 v = (case v of None \<Rightarrow> 0 | Some b \<Rightarrow> b)"

text \<open>Decimal rendering of an integer in a template literal.\<close>

definition digit_char :: "nat \<Rightarrow> char" where
  "digit_char d = ''0123456789'' ! d"

fun show_nat :: "nat \<Rightarrow> string" where
  "show_nat n = (if n < 10 then [digit_char n] else show_nat (n div 10) @ [digit_char (n mod 10)])"

declare show_nat.simps [simp del]

definition show_int :: "int \<Rightarrow> string" where
  "show_int i = (if i < 0 then CHR ''-'' # show_nat (nat (- i)) else show_nat (nat i))"

text \<open>\<open>Array.prototype.join\<close> on an array of strings.\<close>

fun join :: "string \<Rightarrow> string list \<Rightarrow> string" where
  "join sep [] = []"
| "join sep [x] = x"
| "join sep (x # y # ys) = x @ sep @ join sep (y # ys)"

text \<open>
  \<open>TextEncoder.encode\<close>: every string the exporters encode is ASCII, one byte per
  character.
\<close>

definition utf8_encode :: "string \<Rightarrow> byte list" where
  "utf8_encode s = map of_char s"

text \<open>
  Coordinates are IEEE doubles with fractional values, multiplied by a user-chosen
  spacing such as 0.1.  Their arithmetic, their rendering in a template literal and their
  conversion to float32 belong to the JavaScript engine and are taken as a parameter: a
  type \<open>'n\<close> of numbers with the operations the sources use.
\<close>

record 'n js_number =
  js_num :: "int \<Rightarrow> 'n"
  js_sub :: "'n \<Rightarrow> 'n \<Rightarrow> 'n"
  js_mul :: "'n \<Rightarrow> 'n \<Rightarrow> 'n"
  js_div :: "'n \<Rightarrow> 'n \<Rightarrow> 'n"
  js_str :: "'n \<Rightarrow> string"
  js_f32 :: "'n \<Rightarrow> 32 word"

section \<open>utils/math\<close>

definition calcHalf :: "'n js_number \<Rightarrow> 'n \<Rightarrow> 'n" where
  "calcHalf ops sz = js_div ops (js_sub ops sz (js_num ops 1)) (js_num ops 2)"

definition calcActualFrameIndex :: "int \<Rightarrow> int \<Rightarrow> int \<Rightarrow> int option" where
  "calcActualFrameIndex logicalFrame writeIndex totalFrames =
     js_rem (writeIndex + logicalFrame) totalFrames"

definition calcZPosition :: "'n js_number \<Rightarrow> 'n \<Rightarrow> 'n \<Rightarrow> 'n \<Rightarrow> 'n" where
  "calcZPosition ops frameIndex totalFrames spacing =
     (let zHalf = calcHalf ops totalFrames
      in js_mul ops (js_sub ops frameIndex zHalf) spacing)"

text \<open>The optional fourth argument \<open>height\<close> is \<open>None\<close> when the caller leaves it out.\<close>

definition calcColorDataIndex :: "int \<Rightarrow> int \<Rightarrow> int \<Rightarrow> int option \<Rightarrow> int option" where
  "calcColorDataIndex frameIndex pixelIndex width height =
     (case height of
        None \<Rightarrow> Some ((frameIndex * width + pixelIndex) * 4)
      | Some h \<Rightarrow>
          (case js_rem pixelIndex width of
             None \<Rightarrow> None
           | Some x \<Rightarrow>
               (case js_floor_div pixelIndex width of
                  None \<Rightarrow> None
                | Some y \<Rightarrow> Some (((frameIndex * h + y) * width + x) * 4))))"

definition calcTotalPoints :: "int \<Rightarrow> int \<Rightarrow> int \<Rightarrow> int" where
  "calcTotalPoints width height frames = width * height * frames"

definition calcPixelIndex :: "int \<Rightarrow> int \<Rightarrow> int \<Rightarrow> int" where
  "calcPixelIndex x y width = y * width + x"

section \<open>The vertex shader's frame reordering\<close>

text \<open>
  GLSL \<open>mod(x, y) = x - y * floor(x / y)\<close>, undefined for \<open>y = 0\<close>.  The attribute
  \<open>aFrameIndex\<close> and the uniforms \<open>uWriteIndex\<close>, \<open>uTotalFrames\<close> hold integers.
\<close>

definition glsl_mod :: "int \<Rightarrow> int \<Rightarrow> int option" where
  "glsl_mod x y = (if y = 0 then None else Some (x - y * (x div y)))"

definition adjustedFrame :: "int \<Rightarrow> int \<Rightarrow> int \<Rightarrow> int option" where
  "adjustedFrame aFrameIndex uWriteIndex uTotalFrames =
     glsl_mod (aFrameIndex - uWriteIndex + uTotalFrames) uTotalFrames"

section \<open>utils/plyExporter\<close>

text \<open>\<open>PLY_EXPORT_CONFIG.BYTES_PER_POINT\<close> of the page configuration.\<close>

definition BYTES_PER_POINT :: int where
  "BYTES_PER_POINT = 15"

record 'n PLYExportData =
  colorData :: "byte list"
  width :: int
  height :: int
  frames :: int
  spacing :: 'n
  writeIndex :: int

definition newline :: string where
  "newline = [CHR 0x0A]"

definition createPLYHeaderASCII :: "int \<Rightarrow> string" where
  "createPLYHeaderASCII totalPoints =
     join newline
       [''ply'',
        ''format ascii 1.0'',
        ''element vertex '' @ show_int totalPoints,
        ''property float x'',
        ''property float y'',
        ''property float z'',
        ''property uchar red'',
        ''property uchar green'',
        ''property uchar blue'',
        ''end_header''] @ newline"

definition createPLYHeaderBinary :: "int \<Rightarrow> string" where
  "createPLYHeaderBinary totalPoints =
     join newline
       [''ply'',
        ''format binary_little_endian 1.0'',
        ''element vertex '' @ show_int totalPoints,
        ''property float x'',
        ''property float y'',
        ''property float z'',
        ''property uchar red'',
        ''property uchar green'',
        ''property uchar blue'',
        ''end_header''] @ newline"

text \<open>A colour byte read from \<open>colorData\<close>, as a template literal prints it.\<close>

definition template_byte :: "byte option \<Rightarrow> string" where
  "template_byte v = (case v of None \<Rightarrow> ''undefined'' | Some b \<Rightarrow> show_nat (unat b))"

definition createPLYDataASCII :: "'n js_number \<Rightarrow> 'n PLYExportData \<Rightarrow> string" where
  "createPLYDataASCII ops data =
     (let pixelsPerFrame = width data * height data;
          totalPoints = calcTotalPoints (width data) (height data) (frames data);
          xHalf = calcHalf ops (js_num ops (width data));
          yHalf = calcHalf ops (js_num ops (height data));
          header = createPLYHeaderASCII totalPoints;
          lines =
            for_loop 0 (frames data) (\<lambda>logicalFrame lines.
              let actualFrame =
                    calcActualFrameIndex logicalFrame (writeIndex data) (frames data);
                  zPos = calcZPosition ops (js_num ops logicalFrame)
                           (js_num ops (frames data)) (spacing data)
              in for_loop 0 (height data) (\<lambda>y lines.
                   let yPos = js_sub ops yHalf (js_num ops y)
                   in for_loop 0 (width data) (\<lambda>x lines.
                        let xPos = js_sub ops (js_num ops x) xHalf;
                            pixelIdx = calcPixelIndex x y (width data);
                            colorIdx = Option.bind actualFrame
                              (\<lambda>a. calcColorDataIndex a pixelIdx pixelsPerFrame None);
                            r = typed_get (colorData data) colorIdx;
                            g = typed_get (colorData data) (map_option (\<lambda>i. i + 1) colorIdx);
                            b = typed_get (colorData data) (map_option (\<lambda>i. i + 2) colorIdx)
                        in lines @
                           [js_str ops xPos @ '' '' @ js_str ops yPos @ '' '' @ js_str ops zPos
                            @ '' '' @ template_byte r @ '' '' @ template_byte g
                            @ '' '' @ template_byte b])
                      lines)
                 lines)
              []
      in header @ join newline lines)"

text \<open>
  \<open>ArrayBuffer\<close> and \<open>DataView\<close>: a negative length and a write outside the buffer
  raise \<open>RangeError\<close>.
\<close>

datatype js_error = RangeError

definition bind_err :: "js_error + 'a \<Rightarrow> ('a \<Rightarrow> js_error + 'b) \<Rightarrow> js_error + 'b" where
  "bind_err m f = (case m of Inl e \<Rightarrow> Inl e | Inr a \<Rightarrow> f a)"

definition newArrayBuffer :: "int \<Rightarrow> js_error + byte list" where
  "newArrayBuffer n = (if n < 0 then Inl RangeError else Inr (replicate (nat n) 0))"

definition store_at :: "byte list \<Rightarrow> nat \<Rightarrow> byte list \<Rightarrow> byte list" where
  "store_at buf off bs = take off buf @ bs @ drop (off + length bs) buf"

definition le_bytes32 :: "32 word \<Rightarrow> byte list" where
  "le_bytes32 w = [ucast w, ucast (drop_bit 8 w), ucast (drop_bit 16 w), ucast (drop_bit 24 w)]"

text \<open>\<open>dataView.setFloat32(offset, v, true)\<close> and \<open>dataView.setUint8(offset, v)\<close>.\<close>

definition setFloat32 :: "'n js_number \<Rightarrow> byte list \<Rightarrow> int \<Rightarrow> 'n \<Rightarrow> js_error + byte list" where
  "setFloat32 ops buf off v =
     (if 0 \<le> off \<and> off + 4 \<le> int (length buf)
      then Inr (store_at buf (nat off) (le_bytes32 (js_f32 ops v)))
      else Inl RangeError)"

definition setUint8 :: "byte list \<Rightarrow> int \<Rightarrow> byte \<Rightarrow> js_error + byte list" where
  "setUint8 buf off v =
     (if 0 \<le> off \<and> off + 1 \<le> int (length buf)
      then Inr (store_at buf (nat off) [v])
      else Inl RangeError)"

text \<open>
  \<open>target.set(source, off)\<close> on a \<open>Uint8Array\<close>.  In \<open>createPLYDataBinary\<close> the
  running \<open>offset\<close> of the source (\<open>offset += 4\<close> three times, \<open>offset++\<close> three
  times) is written relative to its value at the start of the point; an exception thrown
  inside the loops is the result \<open>Inl\<close> of the function.
\<close>

definition typed_array_set :: "byte list \<Rightarrow> byte list \<Rightarrow> nat \<Rightarrow> js_error + byte list" where
  "typed_array_set target source off =
     (if off + length source \<le> length target
      then Inr (store_at target off source)
      else Inl RangeError)"

definition createPLYDataBinary :: "'n js_number \<Rightarrow> 'n PLYExportData \<Rightarrow> js_error + byte list" where
  "createPLYDataBinary ops data =
     (let pixelsPerFrame = width data * height data;
          totalPoints = calcTotalPoints (width data) (height data) (frames data);
          xHalf = calcHalf ops (js_num ops (width data));
          yHalf = calcHalf ops (js_num ops (height data));
          header = createPLYHeaderBinary totalPoints;
          headerBytes = utf8_encode header
      in bind_err (newArrayBuffer (totalPoints * BYTES_PER_POINT)) (\<lambda>dataBuffer.
         bind_err
           (for_loop 0 (frames data) (\<lambda>logicalFrame st.
              let actualFrame =
                    calcActualFrameIndex logicalFrame (writeIndex data) (frames data);
                  zPos = calcZPosition ops (js_num ops logicalFrame)
                           (js_num ops (frames data)) (spacing data)
              in for_loop 0 (height data) (\<lambda>y st.
                   let yPos = js_sub ops yHalf (js_num ops y)
                   in for_loop 0 (width data) (\<lambda>x st.
                        let xPos = js_sub ops (js_num ops x) xHalf;
                            pixelIdx = calcPixelIndex x y (width data);
                            colorIdx = Option.bind actualFrame
                              (\<lambda>a. calcColorDataIndex a pixelIdx pixelsPerFrame None)
                        in bind_err st (\<lambda>(buf, offset).
                           bind_err (setFloat32 ops buf offset xPos) (\<lambda>buf.
                           bind_err (setFloat32 ops buf (offset + 4) yPos) (\<lambda>buf.
                           bind_err (setFloat32 ops buf (offset + 8) zPos) (\<lambda>buf.
                           bind_err (setUint8 buf (offset + 12)
                              (to_uint8 (typed_get (colorData data) colorIdx))) (\<lambda>buf.
                           bind_err (setUint8 buf (offset + 13)
                              (to_uint8 (typed_get (colorData data)
                                 (map_option (\<lambda>i. i + 1) colorIdx)))) (\<lambda>buf.
                           bind_err (setUint8 buf (offset + 14)
                              (to_uint8 (typed_get (colorData data)
                                 (map_option (\<lambda>i. i + 2) colorIdx)))) (\<lambda>buf.
                           Inr (buf, offset + 15)))))))))
                      st)
                 st)
              (Inr (dataBuffer, 0)))
           (\<lambda>(dataBuffer, offset).
              let combined = replicate (length headerBytes + length dataBuffer) 0
              in bind_err (typed_array_set combined headerBytes 0) (\<lambda>combined.
                 typed_array_set combined dataBuffer (length headerBytes)))))"

section \<open>The points both exporters encode\<close>

text \<open>
  The \<open>i\<close>-th point of an export in frame-major, row-major order: frame
  \<open>i div (width * height)\<close>, row \<open>(i mod (width * height)) div width\<close>, column
  \<open>i mod width\<close>; centred coordinates, the z coordinate scaled by the spacing, and the
  colour of the pixel in the slot the ring buffer keeps for that frame.
\<close>

record 'n ply_point =
  px :: 'n
  py :: 'n
  pz :: 'n
  red :: byte
  green :: byte
  blue :: byte

definition ply_point_at :: "'n js_number \<Rightarrow> 'n PLYExportData \<Rightarrow> int \<Rightarrow> 'n ply_point" where
  "ply_point_at ops data i =
     (let f = i div (width data * height data);
          y = (i mod (width data * height data)) div width data;
          x = i mod width data;
          slot = (writeIndex data + f) mod frames data;
          c = nat (((slot * (width data * height data)) + (y * width data + x)) * 4)
      in \<lparr> px = js_sub ops (js_num ops x) (calcHalf ops (js_num ops (width data))),
           py = js_sub ops (calcHalf ops (js_num ops (height data))) (js_num ops y),
           pz = js_mul ops
                  (js_sub ops (js_num ops f) (calcHalf ops (js_num ops (frames data))))
                  (spacing data),
           red = colorData data ! c,
           green = colorData data ! (c + 1),
           blue = colorData data ! (c + 2) \<rparr>)"

definition ply_points :: "'n js_number \<Rightarrow> 'n PLYExportData \<Rightarrow> 'n ply_point list" where
  "ply_points ops data =
     map (ply_point_at ops data) [0 .. width data * height data * frames data - 1]"

definition ascii_line :: "'n js_number \<Rightarrow> 'n ply_point \<Rightarrow> string" where
  "ascii_line ops p =
     js_str ops (px p) @ '' '' @ js_str ops (py p) @ '' '' @ js_str ops (pz p) @ '' ''
     @ show_nat (unat (red p)) @ '' '' @ show_nat (unat (green p)) @ '' ''
     @ show_nat (unat (blue p))"

definition binary_record :: "'n js_number \<Rightarrow> 'n ply_point \<Rightarrow> byte list" where
  "binary_record ops p =
     le_bytes32 (js_f32 ops (px p)) @ le_bytes32 (js_f32 ops (py p))
     @ le_bytes32 (js_f32 ops (pz p)) @ [red p, green p, blue p]"

section \<open>The exporters' loop bodies, named\<close>

text \<open>
  What one iteration of the innermost loop of each exporter contributes, as a function of
  the three loop counters: the colour index it reads, the line \<open>createPLYDataASCII\<close>
  pushes, the 15 bytes \<open>createPLYDataBinary\<close> writes, and the write itself.
\<close>

definition export_color_index :: "'n PLYExportData \<Rightarrow> int \<Rightarrow> int \<Rightarrow> int \<Rightarrow> int option" where
  "export_color_index data logicalFrame y x =
     Option.bind (calcActualFrameIndex logicalFrame (writeIndex data) (frames data))
       (\<lambda>a. calcColorDataIndex a (calcPixelIndex x y (width data))
              (width data * height data) None)"

definition ascii_point_line :: "'n js_number \<Rightarrow> 'n PLYExportData \<Rightarrow> int \<Rightarrow> int \<Rightarrow> int \<Rightarrow> string" where
  "ascii_point_line ops data logicalFrame y x =
     js_str ops (js_sub ops (js_num ops x) (calcHalf ops (js_num ops (width data))))
     @ '' '' @ js_str ops (js_sub ops (calcHalf ops (js_num ops (height data))) (js_num ops y))
     @ '' '' @ js_str ops (calcZPosition ops (js_num ops logicalFrame)
                             (js_num ops (frames data)) (spacing data))
     @ '' '' @ template_byte (typed_get (colorData data) (export_color_index data logicalFrame y x))
     @ '' '' @ template_byte (typed_get (colorData data)
                 (map_option (\<lambda>i. i + 1) (export_color_index data logicalFrame y x)))
     @ '' '' @ template_byte (typed_get (colorData data)
                 (map_option (\<lambda>i. i + 2) (export_color_index data logicalFrame y x)))"

definition binary_point_bytes :: "'n js_number \<Rightarrow> 'n PLYExportData \<Rightarrow> int \<Rightarrow> int \<Rightarrow> int \<Rightarrow> byte list" where
  "binary_point_bytes ops data logicalFrame y x =
     le_bytes32 (js_f32 ops (js_sub ops (js_num ops x) (calcHalf ops (js_num ops (width data)))))
     @ le_bytes32 (js_f32 ops (js_sub ops (calcHalf ops (js_num ops (height data))) (js_num ops y)))
     @ le_bytes32 (js_f32 ops (calcZPosition ops (js_num ops logicalFrame)
                                 (js_num ops (frames data)) (spacing data)))
     @ [to_uint8 (typed_get (colorData data) (export_color_index data logicalFrame y x)),
        to_uint8 (typed_get (colorData data)
          (map_option (\<lambda>i. i + 1) (export_color_index data logicalFrame y x))),
        to_uint8 (typed_get (colorData data)
          (map_option (\<lambda>i. i + 2) (export_color_index data logicalFrame y x)))]"

definition binary_point_write ::
  "'n js_number \<Rightarrow> 'n PLYExportData \<Rightarrow> int \<Rightarrow> int \<Rightarrow> int
     \<Rightarrow> js_error + byte list \<times> int \<Rightarrow> js_error + byte list \<times> int" where
  "binary_point_write ops data logicalFrame y x st =
     bind_err st (\<lambda>(buf, offset).
     bind_err (setFloat32 ops buf offset
        (js_sub ops (js_num ops x) (calcHalf ops (js_num ops (width data))))) (\<lambda>buf.
     bind_err (setFloat32 ops buf (offset + 4)
        (js_sub ops (calcHalf ops (js_num ops (height data))) (js_num ops y))) (\<lambda>buf.
     bind_err (setFloat32 ops buf (offset + 8)
        (calcZPosition ops (js_num ops logicalFrame) (js_num ops (frames data))
           (spacing data))) (\<lambda>buf.
     bind_err (setUint8 buf (offset + 12)
        (to_uint8 (typed_get (colorData data) (export_color_index data logicalFrame y x)))) (\<lambda>buf.
     bind_err (setUint8 buf (offset + 13)
        (to_uint8 (typed_get (colorData data)
           (map_option (\<lambda>i. i + 1) (export_color_index data logicalFrame y x))))) (\<lambda>buf.
     bind_err (setUint8 buf (offset + 14)
        (to_uint8 (typed_get (colorData data)
           (map_option (\<lambda>i. i + 2) (export_color_index data logicalFrame y x))))) (\<lambda>buf.
     Inr (buf, offset + 15))))))))"

section \<open>The point page: initialisation and the capture step\<close>

text \<open>
  The part of the page component the ring buffer lives in.  \<open>targetW\<close>, \<open>targetH\<close> and
  \<open>targetFrames\<close> are the component's state, set from the number inputs (which are
  disabled while a capture runs); the \<open>...Ref\<close> fields are its refs, \<open>None\<close> for
  \<open>null\<close>.  The scene, the hidden canvas, the video element and the 2D context are
  present or absent.  The geometry holds the three attribute arrays, the material the
  uniforms the ring buffer uses, the texture its \<open>needsUpdate\<close> flag; the texture's
  pixel data is the array \<open>colorDataRef\<close> refers to.  The status line is one of the
  messages the two functions set.
\<close>

datatype status_msg =
    StatusNone
  | StatusThreeNotReady
  | StatusInvalidTarget
  | StatusNoCanvasContext
  | StatusLiveUpdating int
  | StatusCaptureStarted
  | StatusError
  | StatusStopped status_msg

record point_geometry =
  positions :: "rat list"
  frameIndices :: "int list"
  pixelIndices :: "int list"

record shader_uniforms =
  uWriteIndex :: "int option"
  uTotalFrames :: int
  uPixelsPerFrame :: int

record page_state =
  targetW :: int
  targetH :: int
  targetFrames :: int
  sceneReady :: bool
  videoReady :: bool
  ctxRef :: bool
  capturingRef :: bool
  pointsRef :: "point_geometry option"
  materialRef :: "shader_uniforms option"
  colorTextureRef :: "bool option"
  colorDataRef :: "byte list option"
  writeIndexRef :: "int option"
  frameCountRef :: int
  status :: status_msg

definition disposePoints :: "page_state \<Rightarrow> page_state" where
  "disposePoints s =
     s\<lparr> pointsRef := None, materialRef := None, colorTextureRef := None,
        colorDataRef := None, writeIndexRef := Some 0 \<rparr>"

text \<open>
  \<open>initLivePoints\<close> returns its boolean result and the new state.  Whether the hidden
  canvas hands out a 2D context is the argument \<open>getContext\<close>.  The coordinates it
  stores are half-integers, exact in a \<open>Float32Array\<close>.
\<close>

definition initLivePoints :: "bool \<Rightarrow> page_state \<Rightarrow> bool \<times> page_state" where
  "initLivePoints getContext s =
     (if \<not> sceneReady s then (False, s\<lparr> status := StatusThreeNotReady \<rparr>)
      else
        let pixelsPerFrame = targetW s * targetH s;
            totalPoints = calcTotalPoints (targetW s) (targetH s) (targetFrames s)
        in if totalPoints \<le> 0 then (False, s\<lparr> status := StatusInvalidTarget \<rparr>)
           else
             let positions = replicate (nat (totalPoints * 3)) (0::rat);
                 frameIndices = replicate (nat totalPoints) (0::int);
                 pixelIndices = replicate (nat totalPoints) (0::int);
                 xHalf = (of_int (targetW s) - 1) / (2::rat);
                 yHalf = (of_int (targetH s) - 1) / (2::rat);
                 zHalf = (of_int (targetFrames s) - 1) / (2::rat);
                 (positions, frameIndices, pixelIndices, i) =
                   for_loop 0 (targetFrames s) (\<lambda>f st.
                     let zVal = of_int f - zHalf
                     in for_loop 0 (targetH s) (\<lambda>y st.
                          let yVal = yHalf - of_int y
                          in for_loop 0 (targetW s)
                               (\<lambda>x (positions, frameIndices, pixelIndices, i).
                                  let idx = i * 3
                                  in (typed_set
                                        (typed_set
                                           (typed_set positions (Some idx) (of_int x - xHalf))
                                           (Some (idx + 1)) yVal)
                                        (Some (idx + 2)) zVal,
                                      typed_set frameIndices (Some i) f,
                                      typed_set pixelIndices (Some i) (y * targetW s + x),
                                      i + 1))
                               st)
                        st)
                     (positions, frameIndices, pixelIndices, 0)
             in if \<not> getContext then (False, s\<lparr> status := StatusNoCanvasContext \<rparr>)
                else
                  let s = disposePoints (s\<lparr> ctxRef := True \<rparr>);
                      colorData = replicate (nat (pixelsPerFrame * targetFrames s * 4)) (0::byte)
                  in (True,
                      s\<lparr> colorDataRef := Some colorData,
                         colorTextureRef := Some True,
                         writeIndexRef := Some 0,
                         pointsRef := Some \<lparr> positions = positions,
                                              frameIndices = frameIndices,
                                              pixelIndices = pixelIndices \<rparr>,
                         materialRef := Some \<lparr> uWriteIndex = Some 0,
                                                uTotalFrames = targetFrames s,
                                                uPixelsPerFrame = pixelsPerFrame \<rparr>,
                         frameCountRef := 0 \<rparr>))"

text \<open>
  \<open>processFrame\<close>: \<open>imageData\<close> is the array \<open>ctx.getImageData(0, 0, targetW, targetH)\<close>
  returns for the frame just drawn.
\<close>

definition processFrame :: "page_state \<Rightarrow> byte list \<Rightarrow> page_state" where
  "processFrame s imageData =
     (if \<not> capturingRef s then s
      else
        case (colorDataRef s, colorTextureRef s, materialRef s) of
          (Some colorArray, Some colorTexture, Some material) \<Rightarrow>
            if \<not> videoReady s \<or> \<not> ctxRef s then s
            else
              let pixelsPerFrame = targetW s * targetH s;
                  writeIndex = writeIndexRef s;
                  rowOffset = map_option (\<lambda>w. w * pixelsPerFrame * 4) writeIndex;
                  colorData =
                    for_loop 0 pixelsPerFrame (\<lambda>p colorData.
                      let srcBase = p * 4;
                          dstBase = map_option (\<lambda>r. r + p * 4) rowOffset;
                          colorData = typed_set colorData dstBase
                            (to_uint8 (typed_get imageData (Some srcBase)));
                          colorData = typed_set colorData (map_option (\<lambda>d. d + 1) dstBase)
                            (to_uint8 (typed_get imageData (Some (srcBase + 1))));
                          colorData = typed_set colorData (map_option (\<lambda>d. d + 2) dstBase)
                            (to_uint8 (typed_get imageData (Some (srcBase + 2))))
                      in typed_set colorData (map_option (\<lambda>d. d + 3) dstBase) 255)
                      colorArray;
                  writeIndex' = Option.bind writeIndex (\<lambda>w. js_rem (w + 1) (targetFrames s));
                  frameCount = frameCountRef s + 1
              in s\<lparr> colorDataRef := Some colorData,
                    colorTextureRef := Some True,
                    writeIndexRef := writeIndex',
                    materialRef := Some (material\<lparr> uWriteIndex := writeIndex' \<rparr>),
                    frameCountRef := frameCount,
                    status := (if frameCount mod 30 = 0 then StatusLiveUpdating frameCount
                               else status s) \<rparr>
        | _ \<Rightarrow> s)"

text \<open>
  \<open>stopCapture\<close> clears the capturing flag and drops the 2D context (the video element
  and the media stream it releases are not part of the state); unless told to skip it, it
  appends its message to the status line.
\<close>

definition stopCapture :: "bool \<Rightarrow> page_state \<Rightarrow> page_state" where
  "stopCapture skipStatus s =
     (let s = s\<lparr> capturingRef := False, ctxRef := False \<rparr>
      in if skipStatus then s else s\<lparr> status := StatusStopped (status s) \<rparr>)"

text \<open>
  \<open>startCapture\<close>: \<open>getUserMedia\<close> tells whether the webcam stream was obtained and
  played.  Every failure is caught, reported in the status line and followed by
  \<open>stopCapture\<close>; after a successful \<open>initLivePoints\<close> the capturing flag is set and
  every video frame runs \<open>processFrame\<close>.
\<close>

definition startCapture :: "bool \<Rightarrow> bool \<Rightarrow> page_state \<Rightarrow> page_state" where
  "startCapture getUserMedia getContext s =
     (if capturingRef s then s
      else if \<not> getUserMedia then stopCapture True (s\<lparr> status := StatusError \<rparr>)
      else if \<not> videoReady s then stopCapture True (s\<lparr> status := StatusError \<rparr>)
      else case initLivePoints getContext s of
             (True, s') \<Rightarrow> s'\<lparr> capturingRef := True, status := StatusCaptureStarted \<rparr>
           | (False, s') \<Rightarrow> stopCapture True (s'\<lparr> status := StatusError \<rparr>))"

definition capture :: "page_state \<Rightarrow> byte list list \<Rightarrow> page_state" where
  "capture s imageDatas = fold (\<lambda>imageData s. processFrame s imageData) imageDatas s"

text \<open>
  The bytes of slot \<open>k\<close> of the ring buffer, and the bytes \<open>processFrame\<close> stores for
  one frame: red, green and blue of each pixel, alpha 255.
\<close>

definition slot_bytes :: "byte list \<Rightarrow> int \<Rightarrow> int \<Rightarrow> byte list" where
  "slot_bytes ring pixelsPerFrame k =
     take (nat (pixelsPerFrame * 4)) (drop (nat (k * pixelsPerFrame * 4)) ring)"

definition stored_frame :: "byte list \<Rightarrow> byte list" where
  "stored_frame imageData =
     map (\<lambda>j. if j mod 4 = 3 then 255 else imageData ! j) [0..<length imageData]"

text \<open>The pixel loop of \<open>processFrame\<close> for a write index \<open>w\<close> that is a number.\<close>

definition frame_copy :: "byte list \<Rightarrow> int \<Rightarrow> int \<Rightarrow> byte list \<Rightarrow> byte list" where
  "frame_copy ring pixelsPerFrame w imageData =
     for_loop 0 pixelsPerFrame (\<lambda>p t.
       typed_set
         (typed_set
            (typed_set
               (typed_set t (Some (w * pixelsPerFrame * 4 + p * 4))
                  (to_uint8 (typed_get imageData (Some (p * 4)))))
               (Some (w * pixelsPerFrame * 4 + p * 4 + 1))
               (to_uint8 (typed_get imageData (Some (p * 4 + 1)))))
            (Some (w * pixelsPerFrame * 4 + p * 4 + 2))
            (to_uint8 (typed_get imageData (Some (p * 4 + 2)))))
         (Some (w * pixelsPerFrame * 4 + p * 4 + 3)) 255) ring"

text \<open>
  The state of a capture of resolution \<open>W \<times> H\<close> with \<open>F\<close> slots after the frames
  \<open>imageDatas\<close>: the write index has advanced once per frame, modulo \<open>F\<close>, and the
  slot that is \<open>l\<close> places after the write index holds the \<open>l\<close>-th oldest of the last
  \<open>F\<close> frames, or is still zero when fewer frames have been captured.
\<close>

definition capture_invariant :: "int \<Rightarrow> int \<Rightarrow> int \<Rightarrow> byte list list \<Rightarrow> page_state \<Rightarrow> bool" where
  "capture_invariant W H F imageDatas s \<longleftrightarrow>
     targetW s = W \<and> targetH s = H \<and> targetFrames s = F
     \<and> capturingRef s \<and> videoReady s \<and> ctxRef s \<and> colorTextureRef s \<noteq> None
     \<and> (\<exists>m. materialRef s = Some m
            \<and> uWriteIndex m = Some (int (length imageDatas) mod F))
     \<and> writeIndexRef s = Some (int (length imageDatas) mod F)
     \<and> (\<exists>ring. colorDataRef s = Some ring \<and> length ring = nat (W * H * F * 4)
            \<and> (\<forall>l. 0 \<le> l \<and> l < F \<longrightarrow>
                  slot_bytes ring (W * H) ((int (length imageDatas) + l) mod F)
                    = (if F \<le> int (length imageDatas) + l
                       then stored_frame (imageDatas ! nat (int (length imageDatas) + l - F))
                       else replicate (nat (W * H * 4)) 0)))"

section \<open>Example inputs\<close>

text \<open>
  An instance of the number operations over exact rationals, enough to run the exporters
  on examples.  A half-integer is printed as JavaScript prints it (\<open>-0.5\<close>, \<open>1\<close>),
  any other number as the half-integer below it; the float32 pattern of a number is stood
  in for by twice the number as a 32-bit integer.  The theorems below hold for every
  instance.
\<close>

definition example_ops :: "rat js_number" where
  "example_ops =
     \<lparr> js_num = of_int, js_sub = (-), js_mul = (*), js_div = (/),
       js_str = (\<lambda>q. let n = \<lfloor>2 * q\<rfloor>
                     in (if n < 0 then ''-'' else [])
                        @ show_nat (nat (\<bar>n\<bar> div 2))
                        @ (if \<bar>n\<bar> mod 2 = 1 then ''.5'' else [])),
       js_f32 = (\<lambda>q. word_of_int \<lfloor>2 * q\<rfloor>) \<rparr>"

text \<open>Two frames of two pixels, the write index on the second slot.\<close>

definition example_data :: "rat PLYExportData" where
  "example_data =
     \<lparr> colorData = [10, 11, 12, 255, 20, 21, 22, 255, 30, 31, 32, 255, 40, 41, 42, 255],
       width = 2, height = 1, frames = 2, spacing = 2, writeIndex = 1 \<rparr>"

text \<open>A page ready to capture two pixels per frame into three slots, and three frames.\<close>

definition example_page :: page_state where
  "example_page =
     \<lparr> targetW = 2, targetH = 1, targetFrames = 3,
       sceneReady = True, videoReady = True, ctxRef = False, capturingRef = False,
       pointsRef = None, materialRef = None, colorTextureRef = None, colorDataRef = None,
       writeIndexRef = Some 0, frameCountRef = 0, status = StatusNone \<rparr>"

definition example_frames :: "byte list list" where
  "example_frames = [[1, 2, 3, 4, 5, 6, 7, 8], [11, 12, 13, 14, 15, 16, 17, 18]]"

definition example_frame :: "byte list" where
  "example_frame = [21, 22, 23, 24, 25, 26, 27, 28]"

text \<open>The same page after \<open>-1\<close>, \<open>-1\<close> and \<open>1\<close> were typed into the three number inputs.\<close>

definition negative_page :: page_state where
  "negative_page = example_page\<lparr> targetW := - 1, targetH := - 1, targetFrames := 1 \<rparr>"

text \<open>The same page after \<open>2\<close>, \<open>-1\<close> and \<open>-3\<close> were typed into them.\<close>

definition negative_frames_page :: page_state where
  "negative_frames_page = example_page\<lparr> targetW := 2, targetH := - 1, targetFrames := - 3 \<rparr>"

text \<open>A page with a single slot.\<close>

definition single_slot_page :: page_state where
  "single_slot_page = example_page\<lparr> targetFrames := 1 \<rparr>"

section \<open>Ring-buffer index arithmetic\<close>

lemma js_rem_nonneg: "0 \<le> a \<Longrightarrow> 0 < b \<Longrightarrow> js_rem a b = Some (a mod b)"
  by (cases "a = 0") (simp_all add: js_rem_def)

lemma js_rem_one: "js_rem a 1 = Some 0"
  by (simp add: js_rem_def)

lemma bij_betw_Some:
  assumes "bij_betw g A B"
  shows "bij_betw (\<lambda>l. Some (g l)) A (Some ` B)"
proof -
  have "bij_betw Some B (Some ` B)" by (simp add: bij_betw_def)
  from bij_betw_trans [OF assms this] show ?thesis by (simp add: comp_def)
qed

lemma ring_shift_inj:
  assumes "0 < (t::int)"
  shows "inj_on (\<lambda>l. (w + l) mod t) {0..<t}"
proof (rule inj_onI)
  fix a b
  assume a: "a \<in> {0..<t}" and b: "b \<in> {0..<t}"
    and e: "(w + a) mod t = (w + b) mod t"
  from e have "(w + a - (w + b)) mod t = 0"
    by (simp add: mod_eq_dvd_iff)
  then have "t dvd (a - b)" by (simp add: mod_eq_0_iff_dvd)
  moreover have "\<bar>a - b\<bar> < t" using a b by auto
  ultimately show "a = b" using dvd_imp_le_int [of "a - b" t] by auto
qed

lemma ring_shift_bij:
  assumes "0 < (t::int)"
  shows "bij_betw (\<lambda>l. (w + l) mod t) {0..<t} {0..<t}"
proof -
  let ?g = "\<lambda>l. (w + l) mod t"
  have inj: "inj_on ?g {0..<t}" using assms by (rule ring_shift_inj)
  have sub: "?g ` {0..<t} \<subseteq> {0..<t}"
    using assms by (auto simp: image_subset_iff)
  have "card (?g ` {0..<t}) = card {0..<t}"
    using inj by (rule card_image)
  with sub have img: "?g ` {0..<t} = {0..<t}"
    by (intro card_subset_eq) simp_all
  show ?thesis using inj img by (simp add: bij_betw_def)
qed

lemma ring_shift_roundtrip:
  assumes "0 < (t::int)" "0 \<le> l" "l < t"
  shows "((w + l) mod t - w + t) mod t = l"
proof -
  have "((w + l) mod t - w + t) mod t = ((w + l) mod t - w) mod t" by simp
  also have "\<dots> = (w + l - w) mod t" by (rule mod_diff_left_eq)
  also have "\<dots> = l" using assms by simp
  finally show ?thesis .
qed

lemma next_slot_differs:
  assumes "0 < (F::int)" "0 \<le> l" "l + 1 < F"
  shows "(n + (l + 1)) mod F \<noteq> n mod F"
proof
  assume "(n + (l + 1)) mod F = n mod F"
  then have "F dvd (n + (l + 1) - n)" by (simp only: mod_eq_dvd_iff)
  then have "F dvd (l + 1)" by simp
  then have "F \<le> l + 1" using assms by (intro zdvd_imp_le) simp_all
  with assms show False by simp
qed

text \<open>
  C1. For all integers totalFrames > 0, writeIdx with 0 \<le> writeIdx < totalFrames and
  logicalFrame with 0 \<le> logicalFrame < totalFrames, calcActualFrameIndex (logicalFrame,
  writeIdx, totalFrames) is (writeIdx + logicalFrame) mod totalFrames; for each fixed
  writeIdx the map from logicalFrame to it is a bijection on [0, totalFrames); and
  calcActualFrameIndex (0, 30, 60) = 30.
\<close>

theorem calcActualFrameIndex_ring:
  assumes "0 < totalFrames" and "0 \<le> writeIdx" and "writeIdx < totalFrames"
  shows "(\<forall>l. 0 \<le> l \<and> l < totalFrames \<longrightarrow>
            calcActualFrameIndex l writeIdx totalFrames
              = Some ((writeIdx + l) mod totalFrames))
       \<and> bij_betw (\<lambda>l. calcActualFrameIndex l writeIdx totalFrames)
            {0..<totalFrames} (Some ` {0..<totalFrames})
       \<and> calcActualFrameIndex 0 30 60 = Some 30"
proof (intro conjI)
  let ?g = "\<lambda>l. (writeIdx + l) mod totalFrames"
  have eq: "calcActualFrameIndex l writeIdx totalFrames = Some (?g l)"
    if "0 \<le> l" for l
    using that assms by (simp add: calcActualFrameIndex_def js_rem_nonneg)
  then show "\<forall>l. 0 \<le> l \<and> l < totalFrames \<longrightarrow>
      calcActualFrameIndex l writeIdx totalFrames = Some (?g l)"
    by simp
  have "bij_betw (\<lambda>l. Some (?g l)) {0..<totalFrames} (Some ` {0..<totalFrames})"
    using assms(1) by (intro bij_betw_Some ring_shift_bij)
  moreover have "bij_betw (\<lambda>l. calcActualFrameIndex l writeIdx totalFrames)
        {0..<totalFrames} (Some ` {0..<totalFrames})
      \<longleftrightarrow> bij_betw (\<lambda>l. Some (?g l)) {0..<totalFrames} (Some ` {0..<totalFrames})"
    by (rule bij_betw_cong) (simp add: eq)
  ultimately show "bij_betw (\<lambda>l. calcActualFrameIndex l writeIdx totalFrames)
      {0..<totalFrames} (Some ` {0..<totalFrames})"
    by simp
  show "calcActualFrameIndex 0 30 60 = Some 30"
    by (simp add: calcActualFrameIndex_def js_rem_def)
qed

theorem calcActualFrameIndex_ring_witness:
  "(0::int) < 60 \<and> (0::int) \<le> 30 \<and> (30::int) < 60
   \<and> calcActualFrameIndex 29 30 60 = Some 59
   \<and> calcActualFrameIndex 30 30 60 = Some 0
   \<and> bij_betw (\<lambda>l. calcActualFrameIndex l 30 60) {0..<60} (Some ` {0..<60})"
proof -
  have h: "(0::int) < 60" "(0::int) \<le> 30" "(30::int) < 60" by simp_all
  from calcActualFrameIndex_ring [OF h]
  have a: "\<forall>l. 0 \<le> l \<and> l < 60 \<longrightarrow> calcActualFrameIndex l 30 60 = Some ((30 + l) mod 60)"
    and b: "bij_betw (\<lambda>l. calcActualFrameIndex l 30 60) {0..<60} (Some ` {0..<60})"
    by blast+
  from a have "calcActualFrameIndex 29 30 60 = Some ((30 + 29) mod 60)"
    "calcActualFrameIndex 30 30 60 = Some ((30 + 30) mod 60)" by simp_all
  then have "calcActualFrameIndex 29 30 60 = Some 59" "calcActualFrameIndex 30 30 60 = Some 0"
    by simp_all
  with h b show ?thesis by blast
qed

text \<open>
  C2. The vertex shader's frame reordering is the inverse of the ring-buffer index map:
  for all integers totalFrames > 0, writeIdx in [0, totalFrames) and logicalFrame in
  [0, totalFrames), the stored frame index calcActualFrameIndex (logicalFrame, writeIdx,
  totalFrames) is taken back to logicalFrame by the shader's
  (storedFrameIndex - writeIdx + totalFrames) mod totalFrames.
\<close>

theorem adjustedFrame_inverts_calcActualFrameIndex:
  assumes "0 < totalFrames" and "0 \<le> writeIdx" and "writeIdx < totalFrames"
    and "0 \<le> logicalFrame" and "logicalFrame < totalFrames"
  shows "\<exists>storedFrameIndex.
           calcActualFrameIndex logicalFrame writeIdx totalFrames = Some storedFrameIndex
         \<and> adjustedFrame storedFrameIndex writeIdx totalFrames = Some logicalFrame"
proof -
  let ?s = "(writeIdx + logicalFrame) mod totalFrames"
  have stored: "calcActualFrameIndex logicalFrame writeIdx totalFrames = Some ?s"
    using assms by (simp add: calcActualFrameIndex_def js_rem_nonneg)
  have roundtrip: "(?s - writeIdx + totalFrames) mod totalFrames = logicalFrame"
    using assms by (intro ring_shift_roundtrip)
  have "adjustedFrame ?s writeIdx totalFrames
      = Some ((?s - writeIdx + totalFrames) mod totalFrames)"
    using assms(1) unfolding adjustedFrame_def glsl_mod_def
    by (simp only: minus_mult_div_eq_mod) simp
  with stored roundtrip show ?thesis by simp
qed

theorem adjustedFrame_inverts_calcActualFrameIndex_witness:
  "(0::int) < 60 \<and> (0::int) \<le> 30 \<and> (30::int) < 60 \<and> (0::int) \<le> 45 \<and> (45::int) < 60
   \<and> calcActualFrameIndex 45 30 60 = Some 15 \<and> adjustedFrame 15 30 60 = Some 45"
  using adjustedFrame_inverts_calcActualFrameIndex [of 60 30 45]
  by (simp add: calcActualFrameIndex_def js_rem_def adjustedFrame_def glsl_mod_def)

text \<open>
  C9. The two texture-layout variants of calcColorDataIndex agree: for all integers
  w > 0, h > 0, frameIndex \<ge> 0 and pixelIndex with 0 \<le> pixelIndex < w * h, the
  four-argument form calcColorDataIndex (frameIndex, pixelIndex, w, h) equals the legacy
  form calcColorDataIndex (frameIndex, pixelIndex, w * h), which is
  (frameIndex * w * h + pixelIndex) * 4.
\<close>

theorem calcColorDataIndex_layouts_agree:
  assumes "0 < w" and "0 < h" and "0 \<le> frameIndex"
    and "0 \<le> pixelIndex" and "pixelIndex < w * h"
  shows "calcColorDataIndex frameIndex pixelIndex w (Some h)
           = calcColorDataIndex frameIndex pixelIndex (w * h) None
       \<and> calcColorDataIndex frameIndex pixelIndex (w * h) None
           = Some ((frameIndex * w * h + pixelIndex) * 4)"
proof -
  have split: "pixelIndex div w * w + pixelIndex mod w = pixelIndex"
    by simp
  have "(frameIndex * h + pixelIndex div w) * w + pixelIndex mod w
      = frameIndex * (w * h) + (pixelIndex div w * w + pixelIndex mod w)"
    by (simp add: algebra_simps)
  also have "\<dots> = frameIndex * (w * h) + pixelIndex"
    by (simp only: split)
  finally have new: "(frameIndex * h + pixelIndex div w) * w + pixelIndex mod w
      = frameIndex * (w * h) + pixelIndex" .
  have four: "calcColorDataIndex frameIndex pixelIndex w (Some h)
      = Some (((frameIndex * h + pixelIndex div w) * w + pixelIndex mod w) * 4)"
    using assms(1,4) by (simp add: calcColorDataIndex_def js_rem_nonneg js_floor_div_def)
  have legacy: "calcColorDataIndex frameIndex pixelIndex (w * h) None
      = Some ((frameIndex * (w * h) + pixelIndex) * 4)"
    by (simp add: calcColorDataIndex_def)
  have "frameIndex * w * h = frameIndex * (w * h)" by simp
  with four legacy new show ?thesis by simp
qed

theorem calcColorDataIndex_layouts_agree_witness:
  "(0::int) < 144 \<and> (0::int) < 255 \<and> (0::int) \<le> 5 \<and> (0::int) \<le> 2890
   \<and> (2890::int) < 144 * 255
   \<and> calcColorDataIndex 5 2890 144 (Some 255) = Some 745960
   \<and> calcColorDataIndex 5 2890 (144 * 255) None = Some 745960"
  using calcColorDataIndex_layouts_agree [of 144 255 5 2890]
  by simp

section \<open>Loops as folds\<close>

lemma for_loop_fold: "for_loop lo hi body s = fold body [lo..hi - 1] s"
proof (induction lo hi body s rule: for_loop.induct)
  case (1 i hi body s)
  show ?case
  proof (cases "i < hi")
    case True
    then have "[i..hi - 1] = i # [i + 1..hi - 1]" by (simp add: upto_rec1)
    with True 1 show ?thesis by (simp add: for_loop.simps [of i])
  next
    case False
    then show ?thesis by (simp add: for_loop.simps [of i])
  qed
qed

lemma for_loop_empty: "hi \<le> lo \<Longrightarrow> for_loop lo hi body s = s"
  by (simp add: for_loop.simps [of lo])

lemma fold_id: "(\<And>a s. a \<in> set xs \<Longrightarrow> g a s = s) \<Longrightarrow> fold g xs s = s"
  by (induction xs arbitrary: s) simp_all

lemma fold_product:
  "fold (\<lambda>a. fold (g a) ys) xs s = fold (\<lambda>(a, b). g a b) (List.product xs ys) s"
  by (induction xs arbitrary: s) (simp_all add: fold_map comp_def)

lemma length_upto0: "length [0..n - 1] = nat n"
  by simp

lemma nth_upto0: "k < nat n \<Longrightarrow> [0..n - 1] ! k = int k"
  by (simp add: nth_upto)

lemma product_upto:
  assumes "0 \<le> n"
  shows "List.product [0..n - 1] ys
       = map (\<lambda>i. (i div int (length ys), ys ! nat (i mod int (length ys))))
           [0..n * int (length ys) - 1]"
proof (rule nth_equalityI)
  show "length (List.product [0..n - 1] ys)
      = length (map (\<lambda>i. (i div int (length ys), ys ! nat (i mod int (length ys))))
           [0..n * int (length ys) - 1])"
    using assms by (simp add: nat_mult_distrib)
next
  fix k assume "k < length (List.product [0..n - 1] ys)"
  then have k: "k < nat n * length ys" by simp
  then have pos: "0 < length ys" by (cases "length ys") simp_all
  have kd: "k div length ys < nat n" using k pos
    by (simp add: less_mult_imp_div_less)
  have k': "k < nat (n * int (length ys))" using k assms by (simp add: nat_mult_distrib)
  have "List.product [0..n - 1] ys ! k = ([0..n - 1] ! (k div length ys), ys ! (k mod length ys))"
    using k by (simp add: product_nth)
  also have "[0..n - 1] ! (k div length ys) = int (k div length ys)"
    using kd by (rule nth_upto0)
  finally have l: "List.product [0..n - 1] ys ! k = (int k div int (length ys), ys ! (k mod length ys))"
    by (simp add: zdiv_int)
  have "map (\<lambda>i. (i div int (length ys), ys ! nat (i mod int (length ys))))
           [0..n * int (length ys) - 1] ! k
      = (int k div int (length ys), ys ! nat (int k mod int (length ys)))"
    using k' by (simp add: nth_upto0)
  also have "nat (int k mod int (length ys)) = k mod length ys"
    by (simp add: nat_mod_as_int)
  finally show "List.product [0..n - 1] ys ! k
      = map (\<lambda>i. (i div int (length ys), ys ! nat (i mod int (length ys))))
           [0..n * int (length ys) - 1] ! k"
    using l by simp
qed

lemma product_upto_upto:
  assumes "0 \<le> h" "0 \<le> w"
  shows "List.product [0..h - 1] [0..w - 1] = map (\<lambda>j. (j div w, j mod w)) [0..h * w - 1]"
proof -
  have "List.product [0..h - 1] [0..w - 1]
      = map (\<lambda>i. (i div int (length [0..w - 1]), [0..w - 1] ! nat (i mod int (length [0..w - 1]))))
          [0..h * int (length [0..w - 1]) - 1]"
    using assms(1) by (rule product_upto)
  also have "\<dots> = map (\<lambda>i. (i div w, [0..w - 1] ! nat (i mod w))) [0..h * w - 1]"
    using assms(2) by simp
  also have "\<dots> = map (\<lambda>j. (j div w, j mod w)) [0..h * w - 1]"
  proof (rule map_cong [OF refl])
    fix j assume "j \<in> set [0..h * w - 1]"
    then have j: "0 \<le> j" "j < h * w" by auto
    with assms have "0 < w" by (cases "w = 0") auto
    then have "0 \<le> j mod w" "j mod w < w" by simp_all
    then have "[0..w - 1] ! nat (j mod w) = j mod w"
      by (simp add: nth_upto0)
    then show "(j div w, [0..w - 1] ! nat (j mod w)) = (j div w, j mod w)" by simp
  qed
  finally show ?thesis .
qed

lemma grid_upto:
  assumes "0 \<le> f" "0 \<le> h" "0 \<le> w"
  shows "List.product [0..f - 1] (List.product [0..h - 1] [0..w - 1])
       = map (\<lambda>i. (i div (w * h), (i mod (w * h)) div w, i mod w)) [0..w * h * f - 1]"
proof -
  let ?P = "List.product [0..h - 1] [0..w - 1]"
  have P: "?P = map (\<lambda>j. (j div w, j mod w)) [0..h * w - 1]"
    using assms(2,3) by (rule product_upto_upto)
  have lenP: "int (length ?P) = w * h" using assms by (simp add: nat_mult_distrib)
  have "List.product [0..f - 1] ?P
      = map (\<lambda>i. (i div int (length ?P), ?P ! nat (i mod int (length ?P))))
          [0..f * int (length ?P) - 1]"
    using assms(1) by (rule product_upto)
  also have "\<dots> = map (\<lambda>i. (i div (w * h), ?P ! nat (i mod (w * h)))) [0..w * h * f - 1]"
    by (simp only: lenP mult.commute [of f])
  also have "\<dots> = map (\<lambda>i. (i div (w * h), (i mod (w * h)) div w, i mod w)) [0..w * h * f - 1]"
  proof (rule map_cong [OF refl])
    fix i assume "i \<in> set [0..w * h * f - 1]"
    then have i: "0 \<le> i" "i < w * h * f" by auto
    have "0 \<le> w * h" using assms by simp
    moreover from i have "w * h \<noteq> 0" by auto
    ultimately have "0 < w * h" by linarith
    then have m: "0 \<le> i mod (w * h)" "i mod (w * h) < h * w"
      by (simp_all add: mult.commute)
    then have "nat (i mod (w * h)) < nat (h * w)" by simp
    then have "?P ! nat (i mod (w * h)) = ((i mod (w * h)) div w, (i mod (w * h)) mod w)"
      using m by (simp only: P nth_map length_upto0 nth_upto0) simp
    also have "(i mod (w * h)) mod w = i mod w"
      by (simp add: mod_mod_cancel)
    finally show "(i div (w * h), ?P ! nat (i mod (w * h)))
        = (i div (w * h), (i mod (w * h)) div w, i mod w)" by simp
  qed
  finally show ?thesis .
qed

lemma for_loop_fold_fun: "for_loop lo hi body = fold body [lo..hi - 1]"
  by (rule ext) (rule for_loop_fold)

lemma nested_loops_fold:
  assumes "0 \<le> f" "0 \<le> h" "0 \<le> w"
  shows "for_loop 0 f (\<lambda>a. for_loop 0 h (\<lambda>b. for_loop 0 w (\<lambda>c. B a b c))) s
       = fold (\<lambda>i. B (i div (w * h)) ((i mod (w * h)) div w) (i mod w)) [0..w * h * f - 1] s"
proof -
  have inner: "fold (\<lambda>b. fold (B a b) [0..w - 1]) [0..h - 1]
      = fold (\<lambda>(b, c). B a b c) (List.product [0..h - 1] [0..w - 1])" for a
    by (rule ext) (rule fold_product)
  have "for_loop 0 f (\<lambda>a. for_loop 0 h (\<lambda>b. for_loop 0 w (\<lambda>c. B a b c))) s
      = fold (\<lambda>a. fold (\<lambda>b. fold (\<lambda>c. B a b c) [0..w - 1]) [0..h - 1]) [0..f - 1] s"
    by (simp add: for_loop_fold_fun)
  also have "\<dots> = fold (\<lambda>a. fold (\<lambda>(b, c). B a b c) (List.product [0..h - 1] [0..w - 1])) [0..f - 1] s"
    by (simp only: inner)
  also have "\<dots> = fold (\<lambda>(a, b, c). B a b c)
      (List.product [0..f - 1] (List.product [0..h - 1] [0..w - 1])) s"
    using fold_product [where g = "\<lambda>a (b, c). B a b c" and xs = "[0..f - 1]"
        and ys = "List.product [0..h - 1] [0..w - 1]" and s = s]
    by simp
  also have "\<dots> = fold (\<lambda>i. B (i div (w * h)) ((i mod (w * h)) div w) (i mod w)) [0..w * h * f - 1] s"
    by (simp only: grid_upto [OF assms] fold_map) (simp add: comp_def)
  finally show ?thesis .
qed

lemma nested_loops_none:
  assumes "w * h * f = (0::int)"
  shows "for_loop 0 f (\<lambda>a. for_loop 0 h (\<lambda>b. for_loop 0 w (\<lambda>c. B a b c))) s = s"
proof -
  have x: "for_loop 0 w (\<lambda>c. B a b c) t = t" if "w \<le> 0" for a b t
    using that by (rule for_loop_empty)
  have y: "for_loop 0 h (\<lambda>b. for_loop 0 w (\<lambda>c. B a b c)) t = t" if "h \<le> 0 \<or> w \<le> 0" for a t
    using that by (auto simp: for_loop_fold [of 0 h] x intro: fold_id for_loop_empty)
  have "f \<le> 0 \<or> h \<le> 0 \<or> w \<le> 0" using assms by auto
  then show ?thesis
    by (auto simp: for_loop_fold [of 0 f] y intro: fold_id for_loop_empty)
qed

section \<open>The PLY exporters\<close>

lemma createPLYDataASCII_loops:
  "createPLYDataASCII ops data =
     createPLYHeaderASCII (calcTotalPoints (width data) (height data) (frames data))
     @ join newline
        (for_loop 0 (frames data) (\<lambda>f. for_loop 0 (height data) (\<lambda>y.
           for_loop 0 (width data) (\<lambda>x ls. ls @ [ascii_point_line ops data f y x]))) [])"
  by (simp add: createPLYDataASCII_def ascii_point_line_def export_color_index_def Let_def)

lemma createPLYDataBinary_loops:
  "createPLYDataBinary ops data =
     bind_err (newArrayBuffer
        (calcTotalPoints (width data) (height data) (frames data) * BYTES_PER_POINT))
       (\<lambda>dataBuffer.
          bind_err
            (for_loop 0 (frames data) (\<lambda>f. for_loop 0 (height data) (\<lambda>y.
               for_loop 0 (width data) (\<lambda>x. binary_point_write ops data f y x)))
               (Inr (dataBuffer, 0)))
            (\<lambda>(dataBuffer, offset).
               bind_err
                 (typed_array_set
                    (replicate
                       (length (utf8_encode (createPLYHeaderBinary
                          (calcTotalPoints (width data) (height data) (frames data))))
                        + length dataBuffer) 0)
                    (utf8_encode (createPLYHeaderBinary
                       (calcTotalPoints (width data) (height data) (frames data)))) 0)
                 (\<lambda>combined. typed_array_set combined dataBuffer
                    (length (utf8_encode (createPLYHeaderBinary
                       (calcTotalPoints (width data) (height data) (frames data))))))))"
  unfolding createPLYDataBinary_def binary_point_write_def [abs_def] export_color_index_def Let_def
  by (rule refl)

lemma fold_push: "fold (\<lambda>i ls. ls @ [L i]) is ls0 = ls0 @ map L is"
  by (induction "is" arbitrary: ls0) simp_all

lemma length_store_at:
  "off + length bs \<le> length buf \<Longrightarrow> length (store_at buf off bs) = length buf"
  by (simp add: store_at_def)

lemma store_at_append:
  assumes "off + length a + length b \<le> length buf"
  shows "store_at (store_at buf off a) (off + length a) b = store_at buf off (a @ b)"
proof -
  have "take (off + length a) (take off buf @ a @ drop (off + length a) buf) = take off buf @ a"
    using assms by simp
  moreover have "drop (off + length a + length b) (take off buf @ a @ drop (off + length a) buf)
      = drop (off + length a + length b) buf"
    using assms by (simp add: add.commute add.left_commute)
  ultimately show ?thesis by (simp add: store_at_def add.assoc)
qed

lemma store_at_full: "length bs = length buf \<Longrightarrow> store_at buf 0 bs = bs"
  by (simp add: store_at_def)

lemma length_le_bytes32: "length (le_bytes32 w) = 4"
  by (simp add: le_bytes32_def)

lemma length_binary_point_bytes: "length (binary_point_bytes ops data f y x) = 15"
  by (simp add: binary_point_bytes_def length_le_bytes32)

lemma setFloat32_in_range:
  "0 \<le> off \<Longrightarrow> off + 4 \<le> int (length buf) \<Longrightarrow>
   setFloat32 ops buf off v = Inr (store_at buf (nat off) (le_bytes32 (js_f32 ops v)))"
  by (simp add: setFloat32_def)

lemma setUint8_in_range:
  "0 \<le> off \<Longrightarrow> off + 1 \<le> int (length buf) \<Longrightarrow>
   setUint8 buf off v = Inr (store_at buf (nat off) [v])"
  by (simp add: setUint8_def)

lemma bind_err_Inr: "bind_err (Inr a) f = f a"
  by (simp add: bind_err_def)

lemma store_step:
  assumes "nat off + length a + length b \<le> length buf" and "0 \<le> off"
    and "k = int (length a)"
  shows "store_at (store_at buf (nat off) a) (nat (off + k)) b = store_at buf (nat off) (a @ b)"
proof -
  have "nat (off + k) = nat off + length a" using assms by simp
  with store_at_append [OF assms(1)] show ?thesis by simp
qed

lemma binary_point_write_in_range:
  assumes "0 \<le> off" and "off + 15 \<le> int (length buf)"
  shows "binary_point_write ops data f y x (Inr (buf, off))
       = Inr (store_at buf (nat off) (binary_point_bytes ops data f y x), off + 15)"
proof -
  let ?bx = "le_bytes32 (js_f32 ops (js_sub ops (js_num ops x) (calcHalf ops (js_num ops (width data)))))"
  let ?by = "le_bytes32 (js_f32 ops (js_sub ops (calcHalf ops (js_num ops (height data))) (js_num ops y)))"
  let ?bz = "le_bytes32 (js_f32 ops (calcZPosition ops (js_num ops f)
                                 (js_num ops (frames data)) (spacing data)))"
  let ?r = "to_uint8 (typed_get (colorData data) (export_color_index data f y x))"
  let ?g = "to_uint8 (typed_get (colorData data)
          (map_option (\<lambda>i. i + 1) (export_color_index data f y x)))"
  let ?b = "to_uint8 (typed_get (colorData data)
          (map_option (\<lambda>i. i + 2) (export_color_index data f y x)))"
  let ?o = "nat off"
  have len: "?o + 15 \<le> length buf" using assms by linarith
  let ?b1 = "store_at buf ?o ?bx"
  let ?b2 = "store_at buf ?o (?bx @ ?by)"
  let ?b3 = "store_at buf ?o (?bx @ ?by @ ?bz)"
  let ?b4 = "store_at buf ?o (?bx @ ?by @ ?bz @ [?r])"
  let ?b5 = "store_at buf ?o (?bx @ ?by @ ?bz @ [?r, ?g])"
  let ?b6 = "store_at buf ?o (?bx @ ?by @ ?bz @ [?r, ?g, ?b])"
  have l1: "length ?b1 = length buf" using len by (simp add: length_store_at length_le_bytes32)
  have l2: "length ?b2 = length buf" using len by (simp add: length_store_at length_le_bytes32)
  have l3: "length ?b3 = length buf" using len by (simp add: length_store_at length_le_bytes32)
  have l4: "length ?b4 = length buf" using len by (simp add: length_store_at length_le_bytes32)
  have l5: "length ?b5 = length buf" using len by (simp add: length_store_at length_le_bytes32)
  have s1: "setFloat32 ops buf off (js_sub ops (js_num ops x) (calcHalf ops (js_num ops (width data)))) = Inr ?b1"
    using assms by (simp add: setFloat32_in_range)
  have s2: "setFloat32 ops ?b1 (off + 4) (js_sub ops (calcHalf ops (js_num ops (height data))) (js_num ops y)) = Inr ?b2"
    using assms len l1 by (simp add: setFloat32_in_range store_step length_le_bytes32)
  have s3: "setFloat32 ops ?b2 (off + 8) (calcZPosition ops (js_num ops f)
                                 (js_num ops (frames data)) (spacing data)) = Inr ?b3"
    using assms len l2 store_step [of off "?bx @ ?by" ?bz buf 8]
    by (simp add: setFloat32_in_range length_le_bytes32)
  have s4: "setUint8 ?b3 (off + 12) ?r = Inr ?b4"
    using assms len l3 store_step [of off "?bx @ ?by @ ?bz" "[?r]" buf 12]
    by (simp add: setUint8_in_range length_le_bytes32)
  have s5: "setUint8 ?b4 (off + 13) ?g = Inr ?b5"
    using assms len l4 store_step [of off "?bx @ ?by @ ?bz @ [?r]" "[?g]" buf 13]
    by (simp add: setUint8_in_range length_le_bytes32)
  have s6: "setUint8 ?b5 (off + 14) ?b = Inr ?b6"
    using assms len l5 store_step [of off "?bx @ ?by @ ?bz @ [?r, ?g]" "[?b]" buf 14]
    by (simp add: setUint8_in_range length_le_bytes32)
  show ?thesis
    unfolding binary_point_write_def
    by (simp only: bind_err_Inr prod.case s1 s2 s3 s4 s5 s6 binary_point_bytes_def)
qed

lemma fold_binary_point_write:
  assumes "0 \<le> off" and "off + 15 * int (length is) \<le> int (length buf)"
  shows "fold (\<lambda>i. binary_point_write ops data (F i) (Y i) (X i)) is (Inr (buf, off))
       = Inr (store_at buf (nat off) (concat (map (\<lambda>i. binary_point_bytes ops data (F i) (Y i) (X i)) is)),
              off + 15 * int (length is))"
  using assms
proof (induction "is" arbitrary: buf off)
  case Nil
  then show ?case by (simp add: store_at_def)
next
  case (Cons i "is")
  let ?p = "binary_point_bytes ops data (F i) (Y i) (X i)"
  let ?rest = "concat (map (\<lambda>i. binary_point_bytes ops data (F i) (Y i) (X i)) is)"
  have lenrest: "length ?rest = 15 * length is"
    by (induction "is") (simp_all add: length_binary_point_bytes)
  have r: "off + 15 \<le> int (length buf)" using Cons.prems by simp
  have step: "binary_point_write ops data (F i) (Y i) (X i) (Inr (buf, off))
      = Inr (store_at buf (nat off) ?p, off + 15)"
    using Cons.prems(1) r by (rule binary_point_write_in_range)
  have len': "length (store_at buf (nat off) ?p) = length buf"
    using Cons.prems(1) r by (simp add: length_store_at length_binary_point_bytes)
  have "fold (\<lambda>i. binary_point_write ops data (F i) (Y i) (X i)) is (Inr (store_at buf (nat off) ?p, off + 15))
      = Inr (store_at (store_at buf (nat off) ?p) (nat (off + 15)) ?rest, off + 15 + 15 * int (length is))"
    using Cons.prems len' by (intro Cons.IH) simp_all
  moreover have "store_at (store_at buf (nat off) ?p) (nat (off + 15)) ?rest
      = store_at buf (nat off) (?p @ ?rest)"
    using Cons.prems lenrest by (intro store_step) (simp_all add: length_binary_point_bytes)
  ultimately show ?case using step by simp
qed

lemma createPLYDataASCII_points:
  assumes "0 \<le> width data" "0 \<le> height data" "0 \<le> frames data"
  shows "createPLYDataASCII ops data =
     createPLYHeaderASCII (width data * height data * frames data)
     @ join newline
        (map (\<lambda>i. ascii_point_line ops data (i div (width data * height data))
                 ((i mod (width data * height data)) div width data) (i mod width data))
           [0..width data * height data * frames data - 1])"
  unfolding createPLYDataASCII_loops calcTotalPoints_def
  by (simp only: nested_loops_fold [OF assms(3,2,1)] fold_push append_Nil)

lemma typed_array_set_in_range:
  "off + length source \<le> length target \<Longrightarrow>
   typed_array_set target source off = Inr (store_at target off source)"
  by (simp add: typed_array_set_def)

lemma combine_header_data:
  "bind_err (typed_array_set (replicate (length hb + length db) 0) hb 0)
     (\<lambda>combined. typed_array_set combined db (length hb)) = Inr (hb @ db)"
proof -
  let ?z = "replicate (length hb + length db) (0::byte)"
  have a: "typed_array_set ?z hb 0 = Inr (store_at ?z 0 hb)"
    by (simp add: typed_array_set_in_range)
  have l: "length (store_at ?z 0 hb) = length hb + length db"
    by (simp add: length_store_at)
  have b: "typed_array_set (store_at ?z 0 hb) db (length hb)
      = Inr (store_at (store_at ?z 0 hb) (length hb) db)"
    using l by (simp add: typed_array_set_in_range)
  have "store_at (store_at ?z 0 hb) (0 + length hb) db = store_at ?z 0 (hb @ db)"
    by (rule store_at_append) simp
  also have "\<dots> = hb @ db" by (rule store_at_full) simp
  finally show ?thesis using a b by (simp add: bind_err_Inr)
qed

lemma length_concat_point_bytes:
  "length (concat (map (\<lambda>i. binary_point_bytes ops data (F i) (Y i) (X i)) is)) = 15 * length is"
  by (induction "is") (simp_all add: length_binary_point_bytes)

lemma createPLYDataBinary_points:
  assumes "0 \<le> width data" "0 \<le> height data" "0 \<le> frames data"
  shows "createPLYDataBinary ops data =
     Inr (utf8_encode (createPLYHeaderBinary (width data * height data * frames data))
          @ concat
             (map (\<lambda>i. binary_point_bytes ops data (i div (width data * height data))
                      ((i mod (width data * height data)) div width data) (i mod width data))
                [0..width data * height data * frames data - 1]))"
proof -
  let ?n = "width data * height data * frames data"
  let ?pts = "map (\<lambda>i. binary_point_bytes ops data (i div (width data * height data))
                      ((i mod (width data * height data)) div width data) (i mod width data))
                [0..?n - 1]"
  have n: "0 \<le> ?n" using assms by simp
  then have "\<not> ?n * 15 < 0" by linarith
  then have alloc: "newArrayBuffer (?n * BYTES_PER_POINT) = Inr (replicate (nat (?n * 15)) 0)"
    unfolding newArrayBuffer_def BYTES_PER_POINT_def by (simp only: if_False)
  let ?buf = "replicate (nat (?n * 15)) (0::byte)"
  have lenis: "int (length [0..?n - 1]) = ?n" using n by simp
  have room: "0 + 15 * int (length [0..?n - 1]) \<le> int (length ?buf)"
    using n by (simp only: lenis) simp
  have loops: "for_loop 0 (frames data) (\<lambda>f. for_loop 0 (height data) (\<lambda>y.
               for_loop 0 (width data) (\<lambda>x. binary_point_write ops data f y x)))
               (Inr (?buf, 0))
      = Inr (store_at ?buf (nat 0) (concat ?pts), 0 + 15 * int (length [0..?n - 1]))"
    by (simp only: nested_loops_fold [OF assms(3,2,1)])
       (rule fold_binary_point_write [OF order_refl room])
  have "length (concat ?pts) = length ?buf"
    using n by (simp only: length_concat_point_bytes length_replicate) (simp add: nat_mult_distrib)
  then have full: "store_at ?buf (nat 0) (concat ?pts) = concat ?pts"
    by (simp add: store_at_full)
  show ?thesis
    unfolding createPLYDataBinary_loops calcTotalPoints_def
    by (simp only: alloc bind_err_Inr loops full prod.case combine_header_data)
qed

lemma createPLYDataASCII_no_points:
  assumes "width data * height data * frames data = 0"
  shows "createPLYDataASCII ops data = createPLYHeaderASCII 0"
  unfolding createPLYDataASCII_loops calcTotalPoints_def
  by (simp only: nested_loops_none [OF assms] assms join.simps append_Nil2)

lemma createPLYDataBinary_no_points:
  assumes "width data * height data * frames data = 0"
  shows "createPLYDataBinary ops data = Inr (utf8_encode (createPLYHeaderBinary 0))"
proof -
  have alloc: "newArrayBuffer (0 * BYTES_PER_POINT) = Inr []"
    by (simp add: newArrayBuffer_def)
  show ?thesis
    unfolding createPLYDataBinary_loops calcTotalPoints_def
    using combine_header_data [of "utf8_encode (createPLYHeaderBinary 0)" "[]"]
    by (simp only: nested_loops_none [OF assms] assms alloc bind_err_Inr prod.case append_Nil2)
qed

lemma typed_get_in_range:
  "0 \<le> j \<Longrightarrow> j < int (length xs) \<Longrightarrow> typed_get xs (Some j) = Some (xs ! nat j)"
  by (simp add: typed_get_def)

lemma color_index_valid:
  assumes W: "0 < width data" and H: "0 < height data" and F: "0 < frames data"
    and wi: "0 \<le> writeIndex data" "writeIndex data < frames data"
    and i: "0 \<le> i" "i < width data * height data * frames data"
  defines "ppf \<equiv> width data * height data"
  defines "c \<equiv> (((writeIndex data + i div ppf) mod frames data) * ppf
                 + ((i mod ppf) div width data * width data + i mod width data)) * 4"
  shows "export_color_index data (i div ppf) ((i mod ppf) div width data) (i mod width data) = Some c"
    and "0 \<le> c" and "c + 3 < width data * height data * frames data * 4"
proof -
  have ppf: "0 < ppf" using W H by (simp add: ppf_def)
  let ?f = "i div ppf" and ?m = "i mod ppf"
  let ?slot = "(writeIndex data + ?f) mod frames data"
  have f0: "0 \<le> ?f" using i ppf by (simp add: pos_imp_zdiv_nonneg_iff)
  have m: "0 \<le> ?m" "?m < ppf" using ppf by simp_all
  have pix: "?m div width data * width data + i mod width data = ?m"
  proof -
    have "?m mod width data = i mod width data"
      by (simp add: ppf_def mod_mod_cancel)
    then show ?thesis by (metis div_mult_mod_eq)
  qed
  have slot: "0 \<le> ?slot" "?slot \<le> frames data - 1" using F by simp_all
  have af: "calcActualFrameIndex ?f (writeIndex data) (frames data) = Some ?slot"
    using f0 wi F by (simp add: calcActualFrameIndex_def js_rem_nonneg)
  show "export_color_index data ?f (?m div width data) (i mod width data) = Some c"
    using af by (simp add: export_color_index_def calcColorDataIndex_def calcPixelIndex_def c_def ppf_def)
  have c: "c = (?slot * ppf + ?m) * 4" by (simp only: c_def pix)
  have "0 \<le> ?slot * ppf" using slot ppf by simp
  with m show "0 \<le> c" by (simp add: c)
  have "?slot * ppf \<le> (frames data - 1) * ppf"
    using slot ppf by (intro mult_right_mono) simp_all
  then have "?slot * ppf + ?m + 1 \<le> (frames data - 1) * ppf + ppf" using m by linarith
  also have "\<dots> = ppf * frames data" by (simp add: algebra_simps)
  finally have "(?slot * ppf + ?m + 1) * 4 \<le> ppf * frames data * 4" by simp
  then have "(?slot * ppf + ?m) * 4 + 4 \<le> ppf * frames data * 4"
    by (simp only: distrib_right)
  then show "c + 3 < width data * height data * frames data * 4"
    by (simp add: c ppf_def)
qed

lemma valid_point:
  assumes W: "0 < width data" and H: "0 < height data" and F: "0 < frames data"
    and wi: "0 \<le> writeIndex data" "writeIndex data < frames data"
    and len: "length (colorData data) = nat (width data * height data * frames data * 4)"
    and i: "0 \<le> i" "i < width data * height data * frames data"
  shows "ascii_point_line ops data (i div (width data * height data))
           ((i mod (width data * height data)) div width data) (i mod width data)
         = ascii_line ops (ply_point_at ops data i)"
    and "binary_point_bytes ops data (i div (width data * height data))
           ((i mod (width data * height data)) div width data) (i mod width data)
         = binary_record ops (ply_point_at ops data i)"
proof -
  let ?ppf = "width data * height data"
  let ?c = "(((writeIndex data + i div ?ppf) mod frames data) * ?ppf
                 + ((i mod ?ppf) div width data * width data + i mod width data)) * 4"
  note ci = color_index_valid [OF W H F wi i]
  have L: "int (length (colorData data)) = width data * height data * frames data * 4"
    using len W H F by simp
  have r: "typed_get (colorData data) (Some ?c) = Some (colorData data ! nat ?c)"
    using ci(2,3) L by (intro typed_get_in_range) linarith+
  have g: "typed_get (colorData data) (Some (?c + 1)) = Some (colorData data ! (nat ?c + 1))"
    using ci(2,3) L typed_get_in_range [of "?c + 1" "colorData data"]
    by (simp add: nat_add_distrib)
  have b: "typed_get (colorData data) (Some (?c + 2)) = Some (colorData data ! (nat ?c + 2))"
    using ci(2,3) L typed_get_in_range [of "?c + 2" "colorData data"]
    by (simp add: nat_add_distrib)
  show "ascii_point_line ops data (i div ?ppf) ((i mod ?ppf) div width data) (i mod width data)
         = ascii_line ops (ply_point_at ops data i)"
    unfolding ascii_point_line_def ascii_line_def ply_point_at_def Let_def calcZPosition_def
    by (simp only: ci(1) option.map r g b template_byte_def option.case ply_point.simps)
  show "binary_point_bytes ops data (i div ?ppf) ((i mod ?ppf) div width data) (i mod width data)
         = binary_record ops (ply_point_at ops data i)"
    unfolding binary_point_bytes_def binary_record_def ply_point_at_def Let_def calcZPosition_def
    by (simp only: ci(1) option.map r g b to_uint8_def option.case ply_point.simps)
qed

lemma length_ply_points:
  "int (length (ply_points ops data)) = max 0 (width data * height data * frames data)"
  by (simp add: ply_points_def)

lemma ply_points_nth:
  "0 \<le> i \<Longrightarrow> i < width data * height data * frames data \<Longrightarrow>
   ply_points ops data ! nat i = ply_point_at ops data i"
  by (simp add: ply_points_def nth_upto0)

lemma ascii_lines_valid:
  assumes "0 < width data" "0 < height data" "0 < frames data"
    and "0 \<le> writeIndex data" "writeIndex data < frames data"
    and "length (colorData data) = nat (width data * height data * frames data * 4)"
  shows "map (\<lambda>i. ascii_point_line ops data (i div (width data * height data))
                 ((i mod (width data * height data)) div width data) (i mod width data))
           [0..width data * height data * frames data - 1]
       = map (ascii_line ops) (ply_points ops data)"
  unfolding ply_points_def map_map comp_def
  by (rule map_cong [OF refl]) (simp add: valid_point(1) [OF assms])

lemma binary_records_valid:
  assumes "0 < width data" "0 < height data" "0 < frames data"
    and "0 \<le> writeIndex data" "writeIndex data < frames data"
    and "length (colorData data) = nat (width data * height data * frames data * 4)"
  shows "map (\<lambda>i. binary_point_bytes ops data (i div (width data * height data))
                 ((i mod (width data * height data)) div width data) (i mod width data))
           [0..width data * height data * frames data - 1]
       = map (binary_record ops) (ply_points ops data)"
  unfolding ply_points_def map_map comp_def
  by (rule map_cong [OF refl]) (simp add: valid_point(2) [OF assms])

text \<open>
  C4. For every input with width > 0, height > 0, frames > 0, colorData of size
  width * height * frames * 4 and writeIndex in [0, frames), createPLYDataASCII and
  createPLYDataBinary encode the same sequence of points, in the same frame-major,
  row-major order: the data lines of the ASCII export are the lines of the points
  \<open>ply_points\<close>, the data section of the binary export is the concatenation of their
  15-byte records, point \<open>i\<close> of both is \<open>ply_point_at i\<close>; the ASCII line prints the
  coordinates the binary record stores as float32, and both carry the same r, g, b bytes.
\<close>

theorem exporters_encode_same_points:
  assumes "0 < width data" and "0 < height data" and "0 < frames data"
    and "0 \<le> writeIndex data" and "writeIndex data < frames data"
    and "length (colorData data) = nat (width data * height data * frames data * 4)"
  shows "createPLYDataASCII ops data
           = createPLYHeaderASCII (calcTotalPoints (width data) (height data) (frames data))
             @ join newline (map (ascii_line ops) (ply_points ops data))
       \<and> createPLYDataBinary ops data
           = Inr (utf8_encode
                    (createPLYHeaderBinary (calcTotalPoints (width data) (height data) (frames data)))
                  @ concat (map (binary_record ops) (ply_points ops data)))
       \<and> int (length (ply_points ops data))
           = calcTotalPoints (width data) (height data) (frames data)
       \<and> (\<forall>i. 0 \<le> i \<and> i < calcTotalPoints (width data) (height data) (frames data) \<longrightarrow>
             ply_points ops data ! nat i = ply_point_at ops data i)"
proof -
  have nn: "0 \<le> width data" "0 \<le> height data" "0 \<le> frames data" using assms by simp_all
  have pos: "0 \<le> width data * height data * frames data" using nn by simp
  have a: "createPLYDataASCII ops data
           = createPLYHeaderASCII (calcTotalPoints (width data) (height data) (frames data))
             @ join newline (map (ascii_line ops) (ply_points ops data))"
    by (simp only: createPLYDataASCII_points [OF nn] ascii_lines_valid [OF assms]
        calcTotalPoints_def)
  have b: "createPLYDataBinary ops data
           = Inr (utf8_encode
                    (createPLYHeaderBinary (calcTotalPoints (width data) (height data) (frames data)))
                  @ concat (map (binary_record ops) (ply_points ops data)))"
    by (simp only: createPLYDataBinary_points [OF nn] binary_records_valid [OF assms]
        calcTotalPoints_def)
  have c: "int (length (ply_points ops data))
           = calcTotalPoints (width data) (height data) (frames data)"
    using pos by (simp add: length_ply_points calcTotalPoints_def)
  have d: "\<forall>i. 0 \<le> i \<and> i < calcTotalPoints (width data) (height data) (frames data) \<longrightarrow>
             ply_points ops data ! nat i = ply_point_at ops data i"
    by (simp add: calcTotalPoints_def ply_points_nth)
  from a b c d show ?thesis by blast
qed

theorem exporters_encode_same_points_witness:
  "0 < width example_data \<and> 0 < height example_data \<and> 0 < frames example_data
   \<and> 0 \<le> writeIndex example_data \<and> writeIndex example_data < frames example_data
   \<and> length (colorData example_data)
        = nat (width example_data * height example_data * frames example_data * 4)
   \<and> createPLYDataASCII example_ops example_data
        = createPLYHeaderASCII 4
          @ join newline
              [''-0.5 0 -1 30 31 32'', ''0.5 0 -1 40 41 42'',
               ''-0.5 0 1 10 11 12'', ''0.5 0 1 20 21 22'']
   \<and> createPLYDataBinary example_ops example_data
        = Inr (utf8_encode (createPLYHeaderBinary 4)
               @ [255, 255, 255, 255, 0, 0, 0, 0, 254, 255, 255, 255, 30, 31, 32,
                  1, 0, 0, 0, 0, 0, 0, 0, 254, 255, 255, 255, 40, 41, 42,
                  255, 255, 255, 255, 0, 0, 0, 0, 2, 0, 0, 0, 10, 11, 12,
                  1, 0, 0, 0, 0, 0, 0, 0, 2, 0, 0, 0, 20, 21, 22])"
proof -
  have h: "0 < width example_data" "0 < height example_data" "0 < frames example_data"
    "0 \<le> writeIndex example_data" "writeIndex example_data < frames example_data"
    "length (colorData example_data)
        = nat (width example_data * height example_data * frames example_data * 4)"
    by (simp_all add: example_data_def)
  have t: "calcTotalPoints (width example_data) (height example_data) (frames example_data) = 4"
    by (simp add: example_data_def calcTotalPoints_def)
  have l: "map (ascii_line example_ops) (ply_points example_ops example_data)
      = [''-0.5 0 -1 30 31 32'', ''0.5 0 -1 40 41 42'',
         ''-0.5 0 1 10 11 12'', ''0.5 0 1 20 21 22'']"
    by code_simp
  have r: "concat (map (binary_record example_ops) (ply_points example_ops example_data))
      = [255, 255, 255, 255, 0, 0, 0, 0, 254, 255, 255, 255, 30, 31, 32,
         1, 0, 0, 0, 0, 0, 0, 0, 254, 255, 255, 255, 40, 41, 42,
         255, 255, 255, 255, 0, 0, 0, 0, 2, 0, 0, 0, 10, 11, 12,
         1, 0, 0, 0, 0, 0, 0, 0, 2, 0, 0, 0, 20, 21, 22]"
    by code_simp
  from exporters_encode_same_points [OF h, of example_ops] h show ?thesis
    by (simp only: t l r)
qed

text \<open>
  C5. For every input with width, height, frames \<ge> 0, createPLYDataBinary returns an
  array whose byte length is the length of the encoded binary PLY header for totalPoints
  plus totalPoints * 15, where totalPoints = calcTotalPoints (width, height, frames)
  = width * height * frames.
\<close>

theorem createPLYDataBinary_byte_length:
  assumes "0 \<le> width data" and "0 \<le> height data" and "0 \<le> frames data"
  shows "\<exists>bytes. createPLYDataBinary ops data = Inr bytes
           \<and> int (length bytes)
               = int (length (utf8_encode (createPLYHeaderBinary
                   (calcTotalPoints (width data) (height data) (frames data)))))
                 + calcTotalPoints (width data) (height data) (frames data) * 15
           \<and> calcTotalPoints (width data) (height data) (frames data)
               = width data * height data * frames data"
proof -
  have pos: "0 \<le> width data * height data * frames data" using assms by simp
  have "int (length (concat (map (\<lambda>i. binary_point_bytes ops data (i div (width data * height data))
                      ((i mod (width data * height data)) div width data) (i mod width data))
                [0..width data * height data * frames data - 1])))
      = width data * height data * frames data * 15"
    using pos by (simp only: length_concat_point_bytes) simp
  then show ?thesis
    by (simp add: createPLYDataBinary_points [OF assms] calcTotalPoints_def)
qed

theorem createPLYDataBinary_byte_length_witness:
  "0 \<le> width example_data \<and> 0 \<le> height example_data \<and> 0 \<le> frames example_data
   \<and> (\<exists>bytes. createPLYDataBinary example_ops example_data = Inr bytes
          \<and> int (length bytes) = int (length (utf8_encode (createPLYHeaderBinary 4))) + 4 * 15)"
proof -
  have h: "0 \<le> width example_data" "0 \<le> height example_data" "0 \<le> frames example_data"
    by (simp_all add: example_data_def)
  have t: "calcTotalPoints (width example_data) (height example_data) (frames example_data) = 4"
    by (simp add: example_data_def calcTotalPoints_def)
  from createPLYDataBinary_byte_length [OF h, of example_ops] h show ?thesis
    by (simp only: t) auto
qed

lemma createPLYHeaderASCII_lines:
  "createPLYHeaderASCII n =
     concat (map (\<lambda>l. l @ newline)
       [''ply'', ''format ascii 1.0'', ''element vertex '' @ show_int n,
        ''property float x'', ''property float y'', ''property float z'',
        ''property uchar red'', ''property uchar green'', ''property uchar blue'',
        ''end_header''])"
  by (simp add: createPLYHeaderASCII_def)

lemma createPLYHeaderBinary_lines:
  "createPLYHeaderBinary n =
     concat (map (\<lambda>l. l @ newline)
       [''ply'', ''format binary_little_endian 1.0'', ''element vertex '' @ show_int n,
        ''property float x'', ''property float y'', ''property float z'',
        ''property uchar red'', ''property uchar green'', ''property uchar blue'',
        ''end_header''])"
  by (simp add: createPLYHeaderBinary_def)

lemma show_int_0: "show_int 0 = ''0''"
  by (simp add: show_int_def show_nat.simps digit_char_def)

text \<open>
  C7. For every valid input the ASCII PLY export consists of the header lines "ply",
  "format ascii 1.0", "element vertex <totalPoints>", "property float x",
  "property float y", "property float z", "property uchar red", "property uchar green",
  "property uchar blue", "end_header", in that order and each ended by a newline, followed
  by exactly totalPoints data lines, each of the form "x y z r g b", joined by newlines.
\<close>

theorem createPLYDataASCII_layout:
  assumes "0 < width data" and "0 < height data" and "0 < frames data"
    and "0 \<le> writeIndex data" and "writeIndex data < frames data"
    and "length (colorData data) = nat (width data * height data * frames data * 4)"
  shows "\<exists>lines.
           createPLYDataASCII ops data
             = concat (map (\<lambda>l. l @ newline)
                 [''ply'', ''format ascii 1.0'',
                  ''element vertex ''
                    @ show_int (calcTotalPoints (width data) (height data) (frames data)),
                  ''property float x'', ''property float y'', ''property float z'',
                  ''property uchar red'', ''property uchar green'', ''property uchar blue'',
                  ''end_header''])
               @ join newline lines
         \<and> int (length lines) = calcTotalPoints (width data) (height data) (frames data)
         \<and> (\<forall>l\<in>set lines. \<exists>x y z. \<exists>(r::byte) (g::byte) (b::byte).
               l = js_str ops x @ '' '' @ js_str ops y @ '' '' @ js_str ops z @ '' ''
                   @ show_nat (unat r) @ '' '' @ show_nat (unat g) @ '' '' @ show_nat (unat b))"
proof -
  have nn: "0 \<le> width data" "0 \<le> height data" "0 \<le> frames data" using assms by simp_all
  let ?lines = "map (ascii_line ops) (ply_points ops data)"
  have a: "createPLYDataASCII ops data
      = createPLYHeaderASCII (calcTotalPoints (width data) (height data) (frames data))
        @ join newline ?lines"
    by (simp only: createPLYDataASCII_points [OF nn] ascii_lines_valid [OF assms]
        calcTotalPoints_def)
  have b: "int (length ?lines) = calcTotalPoints (width data) (height data) (frames data)"
    using nn by (simp add: length_ply_points calcTotalPoints_def)
  have c: "\<forall>l\<in>set ?lines. \<exists>x y z. \<exists>(r::byte) (g::byte) (b::byte).
               l = js_str ops x @ '' '' @ js_str ops y @ '' '' @ js_str ops z @ '' ''
                   @ show_nat (unat r) @ '' '' @ show_nat (unat g) @ '' '' @ show_nat (unat b)"
  proof
    fix l assume "l \<in> set ?lines"
    then obtain p where "l = ascii_line ops p" by auto
    then show "\<exists>x y z. \<exists>(r::byte) (g::byte) (b::byte).
               l = js_str ops x @ '' '' @ js_str ops y @ '' '' @ js_str ops z @ '' ''
                   @ show_nat (unat r) @ '' '' @ show_nat (unat g) @ '' '' @ show_nat (unat b)"
      unfolding ascii_line_def by (intro exI)
  qed
  from a b c show ?thesis
    unfolding createPLYHeaderASCII_lines by blast
qed

theorem createPLYDataASCII_layout_witness:
  "0 < width example_data \<and> 0 < height example_data \<and> 0 < frames example_data
   \<and> 0 \<le> writeIndex example_data \<and> writeIndex example_data < frames example_data
   \<and> length (colorData example_data)
        = nat (width example_data * height example_data * frames example_data * 4)
   \<and> (\<exists>lines.
         createPLYDataASCII example_ops example_data
           = concat (map (\<lambda>l. l @ newline)
               [''ply'', ''format ascii 1.0'', ''element vertex 4'',
                ''property float x'', ''property float y'', ''property float z'',
                ''property uchar red'', ''property uchar green'', ''property uchar blue'',
                ''end_header''])
             @ join newline lines
       \<and> length lines = 4)"
proof -
  have h: "0 < width example_data" "0 < height example_data" "0 < frames example_data"
    "0 \<le> writeIndex example_data" "writeIndex example_data < frames example_data"
    "length (colorData example_data)
        = nat (width example_data * height example_data * frames example_data * 4)"
    by (simp_all add: example_data_def)
  have t: "calcTotalPoints (width example_data) (height example_data) (frames example_data) = 4"
    by (simp add: example_data_def calcTotalPoints_def)
  have s: "show_int 4 = ''4''"
    by (simp add: show_int_def show_nat.simps digit_char_def)
  from createPLYDataASCII_layout [OF h, of example_ops] h show ?thesis
    by (simp only: t s) auto
qed

text \<open>
  C10. Whenever calcTotalPoints (width, height, frames) = 0, createPLYDataASCII returns
  exactly the ASCII header declaring "element vertex 0", with no data line, and
  createPLYDataBinary returns exactly the encoded binary header, with an empty data
  section.
\<close>

theorem zero_points_export:
  assumes "calcTotalPoints (width data) (height data) (frames data) = 0"
  shows "createPLYDataASCII ops data = createPLYHeaderASCII 0
       \<and> createPLYHeaderASCII 0
           = concat (map (\<lambda>l. l @ newline)
               [''ply'', ''format ascii 1.0'', ''element vertex 0'',
                ''property float x'', ''property float y'', ''property float z'',
                ''property uchar red'', ''property uchar green'', ''property uchar blue'',
                ''end_header''])
       \<and> createPLYDataBinary ops data = Inr (utf8_encode (createPLYHeaderBinary 0))
       \<and> createPLYHeaderBinary 0
           = concat (map (\<lambda>l. l @ newline)
               [''ply'', ''format binary_little_endian 1.0'', ''element vertex 0'',
                ''property float x'', ''property float y'', ''property float z'',
                ''property uchar red'', ''property uchar green'', ''property uchar blue'',
                ''end_header''])"
proof -
  have z: "width data * height data * frames data = 0"
    using assms by (simp add: calcTotalPoints_def)
  show ?thesis
    by (simp only: createPLYDataASCII_no_points [OF z] createPLYDataBinary_no_points [OF z]
        createPLYHeaderASCII_lines createPLYHeaderBinary_lines show_int_0) simp
qed

theorem zero_points_export_witness:
  "calcTotalPoints (width (example_data\<lparr> frames := 0 \<rparr>)) (height (example_data\<lparr> frames := 0 \<rparr>))
     (frames (example_data\<lparr> frames := 0 \<rparr>)) = 0
   \<and> createPLYDataASCII example_ops (example_data\<lparr> frames := 0 \<rparr>) = createPLYHeaderASCII 0
   \<and> createPLYDataBinary example_ops (example_data\<lparr> frames := 0 \<rparr>)
        = Inr (utf8_encode (createPLYHeaderBinary 0))"
proof -
  have h: "calcTotalPoints (width (example_data\<lparr> frames := 0 \<rparr>))
     (height (example_data\<lparr> frames := 0 \<rparr>)) (frames (example_data\<lparr> frames := 0 \<rparr>)) = 0"
    by (simp add: calcTotalPoints_def)
  from zero_points_export [OF h, of example_ops] h show ?thesis by blast
qed

section \<open>The capture step\<close>

lemma for_loop_rule:
  assumes "lo \<le> hi" and "P lo s"
    and "\<And>i t. lo \<le> i \<Longrightarrow> i < hi \<Longrightarrow> P i t \<Longrightarrow> P (i + 1) (body i t)"
  shows "P hi (for_loop lo hi body s)"
  using assms
proof (induction lo hi body s rule: for_loop.induct)
  case (1 i hi body s)
  show ?case
  proof (cases "i < hi")
    case True
    have "P hi (for_loop (i + 1) hi body (body i s))"
    proof (rule 1(1) [OF True])
      show "i + 1 \<le> hi" using True by simp
      show "P (i + 1) (body i s)" using 1(3) True by (intro 1(4)) simp_all
      show "\<And>j t. i + 1 \<le> j \<Longrightarrow> j < hi \<Longrightarrow> P j t \<Longrightarrow> P (j + 1) (body j t)"
        by (rule 1(4)) simp_all
    qed
    with True show ?thesis by (simp add: for_loop.simps [of i])
  next
    case False
    with 1(2) have "i = hi" by simp
    with 1(3) show ?thesis by (simp add: for_loop.simps [of hi])
  qed
qed

lemma typed_set_in_range:
  "0 \<le> j \<Longrightarrow> j < int (length xs) \<Longrightarrow> typed_set xs (Some j) v = xs[nat j := v]"
  by (simp add: typed_set_def)

lemma stored_frame_nth:
  "j < length d \<Longrightarrow> stored_frame d ! j = (if j mod 4 = 3 then 255 else d ! j)"
  by (simp add: stored_frame_def)

lemma length_stored_frame [simp]: "length (stored_frame d) = length d"
  by (simp add: stored_frame_def)

text \<open>One pixel of the copy loop, on natural-number indices.\<close>

lemma pixel_copy_step:
  fixes ring :: "byte list"
  assumes p: "0 \<le> p" and room: "off + 4 * nat p + 4 \<le> length ring"
    and src: "4 * nat p + 4 \<le> length d"
  shows "typed_set
           (typed_set
              (typed_set
                 (typed_set ring (Some (int off + p * 4)) (to_uint8 (typed_get d (Some (p * 4)))))
                 (Some (int off + p * 4 + 1)) (to_uint8 (typed_get d (Some (p * 4 + 1)))))
              (Some (int off + p * 4 + 2)) (to_uint8 (typed_get d (Some (p * 4 + 2)))))
           (Some (int off + p * 4 + 3)) 255
       = ring[off + 4 * nat p := d ! (4 * nat p),
              off + 4 * nat p + 1 := d ! (4 * nat p + 1),
              off + 4 * nat p + 2 := d ! (4 * nat p + 2),
              off + 4 * nat p + 3 := 255]"
proof -
  have i0: "nat (int off + p * 4) = off + 4 * nat p" using p by (simp add: nat_add_distrib nat_mult_distrib)
  have i1: "nat (int off + p * 4 + 1) = off + 4 * nat p + 1" using p by (simp add: nat_add_distrib nat_mult_distrib)
  have i2: "nat (int off + p * 4 + 2) = off + 4 * nat p + 2" using p by (simp add: nat_add_distrib nat_mult_distrib)
  have i3: "nat (int off + p * 4 + 3) = off + 4 * nat p + 3" using p by (simp add: nat_add_distrib nat_mult_distrib)
  have j0: "nat (p * 4) = 4 * nat p" using p by (simp add: nat_mult_distrib)
  have j1: "nat (p * 4 + 1) = 4 * nat p + 1" using p by (simp add: nat_add_distrib nat_mult_distrib)
  have j2: "nat (p * 4 + 2) = 4 * nat p + 2" using p by (simp add: nat_add_distrib nat_mult_distrib)
  have b0: "0 \<le> p * 4" "p * 4 < int (length d)" using p src by linarith+
  have b1: "0 \<le> p * 4 + 1" "p * 4 + 1 < int (length d)" using p src by linarith+
  have b2: "0 \<le> p * 4 + 2" "p * 4 + 2 < int (length d)" using p src by linarith+
  have g0: "to_uint8 (typed_get d (Some (p * 4))) = d ! (4 * nat p)"
    by (simp only: typed_get_in_range [OF b0] to_uint8_def option.case j0)
  have g1: "to_uint8 (typed_get d (Some (p * 4 + 1))) = d ! (4 * nat p + 1)"
    by (simp only: typed_get_in_range [OF b1] to_uint8_def option.case j1)
  have g2: "to_uint8 (typed_get d (Some (p * 4 + 2))) = d ! (4 * nat p + 2)"
    by (simp only: typed_get_in_range [OF b2] to_uint8_def option.case j2)
  have r0: "0 \<le> int off + p * 4" "int off + p * 4 < int (length ring)" using room p by linarith+
  have r1: "0 \<le> int off + p * 4 + 1" "int off + p * 4 + 1 < int (length ring)" using room p by linarith+
  have r2: "0 \<le> int off + p * 4 + 2" "int off + p * 4 + 2 < int (length ring)" using room p by linarith+
  have r3: "0 \<le> int off + p * 4 + 3" "int off + p * 4 + 3 < int (length ring)" using room p by linarith+
  show ?thesis
    using r0 r1 r2 r3
    by (simp only: g0 g1 g2 typed_set_in_range length_list_update i0 i1 i2 i3)
qed

lemma pixel_copy_inv_step:
  fixes ring t :: "byte list"
  assumes len: "length t = length ring"
    and inv: "\<forall>j<length ring. t ! j =
        (if off \<le> j \<and> j < off + 4 * n then stored_frame d ! (j - off) else ring ! j)"
    and room: "off + 4 * n + 4 \<le> length ring" and src: "4 * n + 4 \<le> length d"
  defines "t' \<equiv> t[off + 4 * n := d ! (4 * n), off + 4 * n + 1 := d ! (4 * n + 1),
                     off + 4 * n + 2 := d ! (4 * n + 2), off + 4 * n + 3 := 255]"
  shows "length t' = length ring"
    and "\<forall>j<length ring. t' ! j =
        (if off \<le> j \<and> j < off + 4 * (n + 1) then stored_frame d ! (j - off) else ring ! j)"
proof -
  show "length t' = length ring" by (simp add: t'_def len)
  have m0: "(4 * n) mod 4 = 0" and m1: "(4 * n + 1) mod 4 = 1"
    and m2: "(4 * n + 2) mod 4 = 2" and m3: "(4 * n + 3) mod 4 = 3"
    by presburger+
  have k: "4 * n < length d" "4 * n + 1 < length d" "4 * n + 2 < length d" "4 * n + 3 < length d"
    using src by linarith+
  have s0: "stored_frame d ! (4 * n) = d ! (4 * n)"
    by (simp only: stored_frame_nth [OF k(1)] m0) simp
  have s1: "stored_frame d ! (4 * n + 1) = d ! (4 * n + 1)"
    by (simp only: stored_frame_nth [OF k(2)] m1) simp
  have s2: "stored_frame d ! (4 * n + 2) = d ! (4 * n + 2)"
    by (simp only: stored_frame_nth [OF k(3)] m2) simp
  have s3: "stored_frame d ! (4 * n + 3) = 255"
    by (simp only: stored_frame_nth [OF k(4)] m3) simp
  show "\<forall>j<length ring. t' ! j =
        (if off \<le> j \<and> j < off + 4 * (n + 1) then stored_frame d ! (j - off) else ring ! j)"
  proof (intro allI impI)
    fix j assume j: "j < length ring"
    consider (a) "j = off + 4 * n" | (b) "j = off + 4 * n + 1" | (c) "j = off + 4 * n + 2"
      | (d) "j = off + 4 * n + 3" | (e) "j < off + 4 * n" | (f) "off + 4 * n + 4 \<le> j"
      by linarith
    then show "t' ! j =
        (if off \<le> j \<and> j < off + 4 * (n + 1) then stored_frame d ! (j - off) else ring ! j)"
    proof cases
      case a then show ?thesis using j len s0 by (simp add: t'_def)
    next
      case b then show ?thesis using j len s1 by (simp add: t'_def)
    next
      case c then show ?thesis using j len s2 by (simp add: t'_def)
    next
      case d then show ?thesis using j len s3 by (simp add: t'_def)
    next
      case e
      then have "t' ! j = t ! j" by (simp add: t'_def)
      with e inv j show ?thesis by simp
    next
      case f
      then have "t' ! j = t ! j" by (simp add: t'_def)
      with f inv j show ?thesis by simp
    qed
  qed
qed

lemma pixel_copy_loop:
  fixes ring d :: "byte list"
  assumes ppf: "0 \<le> ppf" and room: "off + 4 * nat ppf \<le> length ring"
    and src: "length d = 4 * nat ppf"
  defines "ring' \<equiv> for_loop 0 ppf (\<lambda>p t.
      typed_set
        (typed_set
           (typed_set
              (typed_set t (Some (int off + p * 4)) (to_uint8 (typed_get d (Some (p * 4)))))
              (Some (int off + p * 4 + 1)) (to_uint8 (typed_get d (Some (p * 4 + 1)))))
           (Some (int off + p * 4 + 2)) (to_uint8 (typed_get d (Some (p * 4 + 2)))))
        (Some (int off + p * 4 + 3)) 255) ring"
  shows "length ring' = length ring
       \<and> (\<forall>j<length ring. ring' ! j =
             (if off \<le> j \<and> j < off + 4 * nat ppf then stored_frame d ! (j - off) else ring ! j))"
  unfolding ring'_def
proof (rule for_loop_rule [where P = "\<lambda>p t. length t = length ring
       \<and> (\<forall>j<length ring. t ! j =
             (if off \<le> j \<and> j < off + 4 * nat p then stored_frame d ! (j - off) else ring ! j))"])
  show "0 \<le> ppf" by (rule ppf)
  show "length ring = length ring \<and> (\<forall>j<length ring. ring ! j =
      (if off \<le> j \<and> j < off + 4 * nat 0 then stored_frame d ! (j - off) else ring ! j))"
    by auto
next
  fix p :: int and t :: "byte list"
  assume p: "0 \<le> p" "p < ppf"
    and inv: "length t = length ring \<and> (\<forall>j<length ring. t ! j =
      (if off \<le> j \<and> j < off + 4 * nat p then stored_frame d ! (j - off) else ring ! j))"
  have n: "nat p + 1 \<le> nat ppf" using p by linarith
  have room': "off + 4 * nat p + 4 \<le> length ring" using room n by linarith
  have src': "4 * nat p + 4 \<le> length d" using src n by linarith
  have room'': "off + 4 * nat p + 4 \<le> length t" using room' inv by simp
  have suc: "nat (p + 1) = nat p + 1" using p by simp
  note step = pixel_copy_inv_step [OF conjunct1 [OF inv] conjunct2 [OF inv] room' src']
  show "length (typed_set
        (typed_set
           (typed_set
              (typed_set t (Some (int off + p * 4)) (to_uint8 (typed_get d (Some (p * 4)))))
              (Some (int off + p * 4 + 1)) (to_uint8 (typed_get d (Some (p * 4 + 1)))))
           (Some (int off + p * 4 + 2)) (to_uint8 (typed_get d (Some (p * 4 + 2)))))
        (Some (int off + p * 4 + 3)) 255) = length ring
     \<and> (\<forall>j<length ring. typed_set
        (typed_set
           (typed_set
              (typed_set t (Some (int off + p * 4)) (to_uint8 (typed_get d (Some (p * 4)))))
              (Some (int off + p * 4 + 1)) (to_uint8 (typed_get d (Some (p * 4 + 1)))))
           (Some (int off + p * 4 + 2)) (to_uint8 (typed_get d (Some (p * 4 + 2)))))
        (Some (int off + p * 4 + 3)) 255 ! j =
      (if off \<le> j \<and> j < off + 4 * nat (p + 1) then stored_frame d ! (j - off) else ring ! j))"
    by (simp only: pixel_copy_step [OF p(1) room'' src'] suc) (use step in blast)
qed

lemma pixel_copy_loop_base:
  fixes ring d :: "byte list"
  assumes "base = int off" and "0 \<le> ppf" and "off + 4 * nat ppf \<le> length ring"
    and "length d = 4 * nat ppf"
  defines "ring' \<equiv> for_loop 0 ppf (\<lambda>p t.
      typed_set
        (typed_set
           (typed_set
              (typed_set t (Some (base + p * 4)) (to_uint8 (typed_get d (Some (p * 4)))))
              (Some (base + p * 4 + 1)) (to_uint8 (typed_get d (Some (p * 4 + 1)))))
           (Some (base + p * 4 + 2)) (to_uint8 (typed_get d (Some (p * 4 + 2)))))
        (Some (base + p * 4 + 3)) 255) ring"
  shows "length ring' = length ring"
    and "\<forall>j<length ring. ring' ! j =
             (if off \<le> j \<and> j < off + 4 * nat ppf then stored_frame d ! (j - off) else ring ! j)"
  using pixel_copy_loop [OF assms(2,3,4)] unfolding ring'_def assms(1) by blast+

lemma processFrame_running:
  assumes "capturingRef s" "videoReady s" "ctxRef s"
    and "colorDataRef s = Some ring" "colorTextureRef s = Some tx" "materialRef s = Some m"
    and "writeIndexRef s = Some w"
  shows "processFrame s d =
     s\<lparr> colorDataRef := Some (frame_copy ring (targetW s * targetH s) w d),
        colorTextureRef := Some True,
        writeIndexRef := js_rem (w + 1) (targetFrames s),
        materialRef := Some (m\<lparr> uWriteIndex := js_rem (w + 1) (targetFrames s) \<rparr>),
        frameCountRef := frameCountRef s + 1,
        status := (if (frameCountRef s + 1) mod 30 = 0 then StatusLiveUpdating (frameCountRef s + 1)
                   else status s) \<rparr>"
  unfolding processFrame_def frame_copy_def
  by (simp only: assms Let_def option.case prod.case option.map not_True_eq_False simp_thms if_False
      bind.simps)

lemma slot_offset:
  assumes "0 \<le> ppf" "0 \<le> k"
  shows "nat (k * ppf * 4) = nat k * (4 * nat ppf)" and "nat (ppf * 4) = 4 * nat ppf"
  using assms by (simp_all add: nat_mult_distrib)

lemma slot_room:
  assumes "0 \<le> ppf" "0 \<le> k" "k < F" "length ring = nat (ppf * F * 4)"
  shows "nat k * (4 * nat ppf) + 4 * nat ppf \<le> length ring"
proof -
  have "nat k + 1 \<le> nat F" using assms by linarith
  then have "(nat k + 1) * (4 * nat ppf) \<le> nat F * (4 * nat ppf)"
    by (rule mult_le_mono1)
  moreover have "length ring = nat F * (4 * nat ppf)"
    using assms by (simp add: nat_mult_distrib)
  ultimately show ?thesis by (simp add: algebra_simps)
qed

lemma slot_bytes_nth:
  assumes "0 \<le> ppf" "0 \<le> k" "k < F" "length ring = nat (ppf * F * 4)"
  shows "length (slot_bytes ring ppf k) = 4 * nat ppf"
    and "j < 4 * nat ppf \<Longrightarrow> slot_bytes ring ppf k ! j = ring ! (nat k * (4 * nat ppf) + j)"
proof -
  note room = slot_room [OF assms]
  show "length (slot_bytes ring ppf k) = 4 * nat ppf"
    using room by (simp add: slot_bytes_def slot_offset [OF assms(1,2)])
  show "slot_bytes ring ppf k ! j = ring ! (nat k * (4 * nat ppf) + j)" if "j < 4 * nat ppf"
    using room that by (simp add: slot_bytes_def slot_offset [OF assms(1,2)])
qed

lemma frame_copy_nth:
  assumes ppf: "0 \<le> ppf" and w: "0 \<le> w" "w < F"
    and len: "length ring = nat (ppf * F * 4)" and src: "length d = nat (ppf * 4)"
  shows "length (frame_copy ring ppf w d) = length ring"
    and "\<forall>j<length ring. frame_copy ring ppf w d ! j =
          (if nat w * (4 * nat ppf) \<le> j \<and> j < nat w * (4 * nat ppf) + 4 * nat ppf
           then stored_frame d ! (j - nat w * (4 * nat ppf)) else ring ! j)"
proof -
  have base: "w * ppf * 4 = int (nat w * (4 * nat ppf))"
    using ppf w by simp
  have src': "length d = 4 * nat ppf" using src ppf by (simp add: nat_mult_distrib)
  note room = slot_room [OF ppf w len]
  show "length (frame_copy ring ppf w d) = length ring"
    unfolding frame_copy_def by (rule pixel_copy_loop_base(1) [OF base ppf room src'])
  show "\<forall>j<length ring. frame_copy ring ppf w d ! j =
          (if nat w * (4 * nat ppf) \<le> j \<and> j < nat w * (4 * nat ppf) + 4 * nat ppf
           then stored_frame d ! (j - nat w * (4 * nat ppf)) else ring ! j)"
    unfolding frame_copy_def by (rule pixel_copy_loop_base(2) [OF base ppf room src'])
qed

lemma frame_copy_slot_written:
  assumes ppf: "0 \<le> ppf" and w: "0 \<le> w" "w < F"
    and len: "length ring = nat (ppf * F * 4)" and src: "length d = nat (ppf * 4)"
  shows "slot_bytes (frame_copy ring ppf w d) ppf w = stored_frame d"
proof (rule nth_equalityI)
  note fc = frame_copy_nth [OF assms]
  have len': "length (frame_copy ring ppf w d) = nat (ppf * F * 4)" using fc(1) len by simp
  note sb = slot_bytes_nth [OF ppf w len']
  have src': "length d = 4 * nat ppf" using src ppf by (simp add: nat_mult_distrib)
  show "length (slot_bytes (frame_copy ring ppf w d) ppf w) = length (stored_frame d)"
    using sb(1) src' by simp
  fix j assume "j < length (slot_bytes (frame_copy ring ppf w d) ppf w)"
  then have j: "j < 4 * nat ppf" using sb(1) by simp
  have "nat w * (4 * nat ppf) + j < length ring"
    using slot_room [OF ppf w len] j by linarith
  with fc(2) j have "frame_copy ring ppf w d ! (nat w * (4 * nat ppf) + j) = stored_frame d ! j"
    by simp
  with sb(2) [OF j] show "slot_bytes (frame_copy ring ppf w d) ppf w ! j = stored_frame d ! j"
    by simp
qed

lemma frame_copy_slot_kept:
  assumes ppf: "0 \<le> ppf" and w: "0 \<le> w" "w < F"
    and len: "length ring = nat (ppf * F * 4)" and src: "length d = nat (ppf * 4)"
    and k: "0 \<le> k" "k < F" "k \<noteq> w"
  shows "slot_bytes (frame_copy ring ppf w d) ppf k = slot_bytes ring ppf k"
proof (rule nth_equalityI)
  note fc = frame_copy_nth [OF ppf w len src]
  have len': "length (frame_copy ring ppf w d) = nat (ppf * F * 4)" using fc(1) len by simp
  note sb' = slot_bytes_nth [OF ppf k(1,2) len']
  note sb = slot_bytes_nth [OF ppf k(1,2) len]
  show "length (slot_bytes (frame_copy ring ppf w d) ppf k) = length (slot_bytes ring ppf k)"
    using sb(1) sb'(1) by simp
  fix j assume "j < length (slot_bytes (frame_copy ring ppf w d) ppf k)"
  then have j: "j < 4 * nat ppf" using sb'(1) by simp
  let ?P = "4 * nat ppf"
  have inr: "nat k * ?P + j < length ring"
    using slot_room [OF ppf k(1,2) len] j by linarith
  have out: "\<not> (nat w * ?P \<le> nat k * ?P + j \<and> nat k * ?P + j < nat w * ?P + ?P)"
  proof (cases "k < w")
    case True
    then have "nat k + 1 \<le> nat w" using k w by linarith
    then have "(nat k + 1) * ?P \<le> nat w * ?P" by (rule mult_le_mono1)
    then have "nat k * ?P + ?P \<le> nat w * ?P" by (simp add: algebra_simps)
    with j show ?thesis by linarith
  next
    case False
    with k have "nat w + 1 \<le> nat k" using w by linarith
    then have "(nat w + 1) * ?P \<le> nat k * ?P" by (rule mult_le_mono1)
    then have "nat w * ?P + ?P \<le> nat k * ?P" by (simp add: algebra_simps)
    then show ?thesis by linarith
  qed
  from fc(2) inr have "frame_copy ring ppf w d ! (nat k * ?P + j) =
      (if nat w * ?P \<le> nat k * ?P + j \<and> nat k * ?P + j < nat w * ?P + ?P
       then stored_frame d ! (nat k * ?P + j - nat w * ?P) else ring ! (nat k * ?P + j))"
    by blast
  then have "frame_copy ring ppf w d ! (nat k * ?P + j) = ring ! (nat k * ?P + j)"
    by (simp only: out if_False)
  with sb(2) [OF j] sb'(2) [OF j]
  show "slot_bytes (frame_copy ring ppf w d) ppf k ! j = slot_bytes ring ppf k ! j"
    by simp
qed

lemma initLivePoints_accepts:
  assumes "sceneReady s" and "0 < calcTotalPoints (targetW s) (targetH s) (targetFrames s)"
  shows "\<exists>s1. initLivePoints True s = (True, s1)
     \<and> targetW s1 = targetW s \<and> targetH s1 = targetH s \<and> targetFrames s1 = targetFrames s
     \<and> videoReady s1 = videoReady s \<and> capturingRef s1 = capturingRef s \<and> ctxRef s1
     \<and> pointsRef s1 \<noteq> None
     \<and> materialRef s1 = Some \<lparr> uWriteIndex = Some 0, uTotalFrames = targetFrames s,
                                    uPixelsPerFrame = targetW s * targetH s \<rparr>
     \<and> colorTextureRef s1 = Some True
     \<and> colorDataRef s1 = Some (replicate (nat (targetW s * targetH s * targetFrames s * 4)) 0)
     \<and> writeIndexRef s1 = Some 0 \<and> frameCountRef s1 = 0 \<and> status s1 = status s"
  using assms
  by (simp add: initLivePoints_def Let_def disposePoints_def split: prod.splits)

lemma initLivePoints_rejects:
  assumes "calcTotalPoints (targetW s) (targetH s) (targetFrames s) \<le> 0"
  shows "initLivePoints getContext s =
     (False, s\<lparr> status := (if sceneReady s then StatusInvalidTarget else StatusThreeNotReady) \<rparr>)"
  using assms by (simp add: initLivePoints_def Let_def)

lemma capture_snoc: "capture s (ds @ [d]) = processFrame (capture s ds) d"
  by (simp add: capture_def)

lemma slot_bytes_zero:
  assumes "0 \<le> ppf" "0 \<le> k" "k < F"
  shows "slot_bytes (replicate (nat (ppf * F * 4)) 0) ppf k = replicate (nat (ppf * 4)) 0"
proof (rule nth_equalityI)
  note sb = slot_bytes_nth [OF assms, of "replicate (nat (ppf * F * 4)) 0", OF length_replicate]
  note room = slot_room [OF assms, of "replicate (nat (ppf * F * 4)) 0", OF length_replicate]
  show "length (slot_bytes (replicate (nat (ppf * F * 4)) (0::byte)) ppf k)
      = length (replicate (nat (ppf * 4)) (0::byte))"
    using sb(1) assms(1) by (simp add: nat_mult_distrib)
  fix j assume "j < length (slot_bytes (replicate (nat (ppf * F * 4)) (0::byte)) ppf k)"
  then have j: "j < 4 * nat ppf" using sb(1) by simp
  then have "nat k * (4 * nat ppf) + j < nat (ppf * F * 4)" using room by simp
  then have "replicate (nat (ppf * F * 4)) (0::byte) ! (nat k * (4 * nat ppf) + j) = 0"
    by (rule nth_replicate)
  moreover have "replicate (nat (ppf * 4)) (0::byte) ! j = 0"
    using j assms(1) by (simp add: nat_mult_distrib)
  ultimately show "slot_bytes (replicate (nat (ppf * F * 4)) (0::byte)) ppf k ! j
      = replicate (nat (ppf * 4)) (0::byte) ! j"
    using sb(2) [OF j] by simp
qed

lemma capture_invariant_start:
  assumes dims: "0 < targetW s * targetH s" "0 < targetFrames s"
    and s: "capturingRef s" "videoReady s" "ctxRef s" "colorTextureRef s \<noteq> None"
      "materialRef s = Some m" "uWriteIndex m = Some 0" "writeIndexRef s = Some 0"
      "colorDataRef s = Some (replicate (nat (targetW s * targetH s * targetFrames s * 4)) 0)"
  shows "capture_invariant (targetW s) (targetH s) (targetFrames s) [] s"
proof -
  have "slot_bytes (replicate (nat (targetW s * targetH s * targetFrames s * 4)) 0)
          (targetW s * targetH s) (l mod targetFrames s)
      = replicate (nat (targetW s * targetH s * 4)) 0" if "0 \<le> l" "l < targetFrames s" for l
    using dims that by (intro slot_bytes_zero) simp_all
  then show ?thesis
    using dims s by (simp add: capture_invariant_def)
qed

lemma capture_invariant_step:
  assumes dims: "0 < W * H" "0 < F"
    and inv: "capture_invariant W H F ds s"
    and d: "length d = nat (W * H * 4)"
  shows "capture_invariant W H F (ds @ [d]) (processFrame s d)"
proof -
  let ?n = "int (length ds)"
  let ?w = "?n mod F"
  let ?ppf = "W * H"
  from inv obtain m ring where
    st: "targetW s = W" "targetH s = H" "targetFrames s = F"
      "capturingRef s" "videoReady s" "ctxRef s"
    and tx: "colorTextureRef s \<noteq> None"
    and m: "materialRef s = Some m"
    and w: "writeIndexRef s = Some ?w"
    and ring: "colorDataRef s = Some ring" "length ring = nat (?ppf * F * 4)"
    and slots: "\<And>l. 0 \<le> l \<Longrightarrow> l < F \<Longrightarrow>
        slot_bytes ring ?ppf ((?n + l) mod F)
          = (if F \<le> ?n + l then stored_frame (ds ! nat (?n + l - F))
             else replicate (nat (?ppf * 4)) 0)"
    unfolding capture_invariant_def by blast
  from tx obtain tx' where tx': "colorTextureRef s = Some tx'" by blast
  have ppf: "0 \<le> ?ppf" using dims(1) by (rule less_imp_le)
  have wr: "0 \<le> ?w" "?w < F" using dims by simp_all
  have next_w: "js_rem (?w + 1) F = Some ((?n + 1) mod F)"
    using wr dims by (simp add: js_rem_nonneg mod_add_left_eq)
  let ?ring' = "frame_copy ring ?ppf ?w d"
  have run: "processFrame s d =
     s\<lparr> colorDataRef := Some ?ring',
        colorTextureRef := Some True,
        writeIndexRef := Some ((?n + 1) mod F),
        materialRef := Some (m\<lparr> uWriteIndex := Some ((?n + 1) mod F) \<rparr>),
        frameCountRef := frameCountRef s + 1,
        status := (if (frameCountRef s + 1) mod 30 = 0 then StatusLiveUpdating (frameCountRef s + 1)
                   else status s) \<rparr>"
    using processFrame_running [OF st(4,5,6) ring(1) tx' m w, of d]
    by (simp only: st next_w)
  have len': "length ?ring' = nat (?ppf * F * 4)"
    using frame_copy_nth(1) [OF ppf wr ring(2) d] ring(2) by simp
  have slots': "slot_bytes ?ring' ?ppf ((int (length (ds @ [d])) + l) mod F)
          = (if F \<le> int (length (ds @ [d])) + l
             then stored_frame ((ds @ [d]) ! nat (int (length (ds @ [d])) + l - F))
             else replicate (nat (?ppf * 4)) 0)" if l: "0 \<le> l" "l < F" for l
  proof (cases "l = F - 1")
    case True
    then have k: "(int (length (ds @ [d])) + l) mod F = ?w" by simp
    have "nat (int (length (ds @ [d])) + l - F) = length ds" using True by simp
    then have "(ds @ [d]) ! nat (int (length (ds @ [d])) + l - F) = d" by simp
    moreover have "F \<le> int (length (ds @ [d])) + l" using True by simp
    moreover have "slot_bytes ?ring' ?ppf ?w = stored_frame d"
      by (rule frame_copy_slot_written [OF ppf wr ring(2) d])
    ultimately show ?thesis by (simp only: k if_True)
  next
    case False
    with l have l1: "0 \<le> l + 1" "l + 1 < F" by simp_all
    let ?k = "(?n + (l + 1)) mod F"
    have "int (length (ds @ [d])) + l = ?n + (l + 1)" by simp
    then have k: "(int (length (ds @ [d])) + l) mod F = ?k" by (simp only:)
    have kr: "0 \<le> ?k" "?k < F" using dims by simp_all
    have kw: "?k \<noteq> ?w" using dims l l1 by (intro next_slot_differs) simp_all
    have kept: "slot_bytes ?ring' ?ppf ?k = slot_bytes ring ?ppf ?k"
      by (rule frame_copy_slot_kept [OF ppf wr ring(2) d kr kw])
    have old: "slot_bytes ring ?ppf ?k
        = (if F \<le> ?n + (l + 1) then stored_frame (ds ! nat (?n + (l + 1) - F))
           else replicate (nat (?ppf * 4)) 0)"
      by (rule slots [OF l1])
    have idx: "int (length (ds @ [d])) + l = ?n + (l + 1)" by simp
    have "(ds @ [d]) ! nat (?n + (l + 1) - F) = ds ! nat (?n + (l + 1) - F)"
      if "F \<le> ?n + (l + 1)"
    proof -
      have "nat (?n + (l + 1) - F) < length ds" using that l1 by linarith
      then show ?thesis by (simp add: nth_append)
    qed
    then show ?thesis
      by (simp only: k kept old idx) simp
  qed
  show ?thesis
    unfolding capture_invariant_def run
    using st tx len' slots' by (simp add: add.commute)
qed

lemma capture_invariant_capture:
  assumes dims: "0 < W * H" "0 < F"
    and start: "capture_invariant W H F [] s"
    and frames: "\<forall>d\<in>set ds. length d = nat (W * H * 4)"
  shows "capture_invariant W H F ds (capture s ds)"
  using frames
proof (induction ds rule: rev_induct)
  case Nil
  with start show ?case by (simp add: capture_def)
next
  case (snoc d ds)
  then have "capture_invariant W H F ds (capture s ds)" by simp
  moreover have "length d = nat (W * H * 4)" using snoc.prems by simp
  ultimately show ?case
    unfolding capture_snoc by (rule capture_invariant_step [OF dims])
qed

lemma startCapture_begins:
  assumes dims: "0 < targetW s0 * targetH s0" "0 < targetFrames s0"
    and ready: "sceneReady s0" "videoReady s0" "\<not> capturingRef s0"
  shows "capture_invariant (targetW s0) (targetH s0) (targetFrames s0) []
           (startCapture True True s0)"
proof -
  have "0 < targetW s0 * targetH s0 * targetFrames s0" using dims by (rule mult_pos_pos)
  then have tot: "0 < calcTotalPoints (targetW s0) (targetH s0) (targetFrames s0)"
    by (simp add: calcTotalPoints_def)
  from initLivePoints_accepts [OF ready(1) tot] obtain s1 where
    i: "initLivePoints True s0 = (True, s1)"
    and f: "targetW s1 = targetW s0" "targetH s1 = targetH s0" "targetFrames s1 = targetFrames s0"
      "videoReady s1 = videoReady s0" "ctxRef s1"
      "materialRef s1 = Some \<lparr> uWriteIndex = Some 0, uTotalFrames = targetFrames s0,
                                    uPixelsPerFrame = targetW s0 * targetH s0 \<rparr>"
      "colorTextureRef s1 = Some True"
      "colorDataRef s1 = Some (replicate (nat (targetW s0 * targetH s0 * targetFrames s0 * 4)) 0)"
      "writeIndexRef s1 = Some 0"
    by blast
  let ?s = "s1\<lparr> capturingRef := True, status := StatusCaptureStarted \<rparr>"
  have sc: "startCapture True True s0 = ?s"
    using ready i by (simp add: startCapture_def)
  have "capture_invariant (targetW ?s) (targetH ?s) (targetFrames ?s) [] ?s"
    using dims f ready
    by (intro capture_invariant_start [where m = "\<lparr> uWriteIndex = Some 0, uTotalFrames = targetFrames s0,
                                    uPixelsPerFrame = targetW s0 * targetH s0 \<rparr>"]) simp_all
  then show ?thesis using f by (simp add: sc)
qed

text \<open>
  The ring-buffer invariant of a capture that \<open>initLivePoints\<close> accepts
  (\<open>targetW * targetH > 0\<close>) with a positive frame count.  The capture starts with
  the write index 0.  After any frames the write index is in [0, targetFrames); the next
  \<open>processFrame\<close> step writes exactly the bytes of the slot at the write index (those
  at byte offset writeIndex * pixelsPerFrame * 4), leaves every other slot of the colour
  data as it was, and advances the write index by one modulo the frame count; and the slot
  that is \<open>l\<close> places after the write index holds the \<open>l\<close>-th oldest of the last
  \<open>targetFrames\<close> frames, so that the write index, the next slot to be overwritten, is
  the oldest.
\<close>

theorem started_capture_ring_buffer_invariant:
  assumes dims: "0 < targetW s0 * targetH s0" "0 < targetFrames s0"
    and ready: "sceneReady s0" "videoReady s0" "\<not> capturingRef s0"
    and frames: "\<forall>d\<in>set imageDatas. length d = nat (targetW s0 * targetH s0 * 4)"
    and frame: "length imageData = nat (targetW s0 * targetH s0 * 4)"
    and s: "s = capture (startCapture True True s0) imageDatas"
  shows "writeIndexRef (startCapture True True s0) = Some 0
       \<and> (\<exists>w ring ring'.
             writeIndexRef s = Some w \<and> 0 \<le> w \<and> w < targetFrames s0
           \<and> w = int (length imageDatas) mod targetFrames s0
           \<and> colorDataRef s = Some ring
           \<and> length ring = nat (targetW s0 * targetH s0 * targetFrames s0 * 4)
           \<and> colorDataRef (processFrame s imageData) = Some ring'
           \<and> length ring' = length ring
           \<and> slot_bytes ring' (targetW s0 * targetH s0) w = stored_frame imageData
           \<and> (\<forall>k. 0 \<le> k \<and> k < targetFrames s0 \<and> k \<noteq> w \<longrightarrow>
                 slot_bytes ring' (targetW s0 * targetH s0) k
                   = slot_bytes ring (targetW s0 * targetH s0) k)
           \<and> writeIndexRef (processFrame s imageData) = Some ((w + 1) mod targetFrames s0)
           \<and> (\<forall>l. 0 \<le> l \<and> l < targetFrames s0 \<longrightarrow>
                 (\<exists>k. calcActualFrameIndex l w (targetFrames s0) = Some k
                    \<and> slot_bytes ring (targetW s0 * targetH s0) k
                        = (if targetFrames s0 \<le> int (length imageDatas) + l
                           then stored_frame
                                  (imageDatas ! nat (int (length imageDatas) + l - targetFrames s0))
                           else replicate (nat (targetW s0 * targetH s0 * 4)) 0))))"
proof -
  let ?W = "targetW s0" and ?H = "targetH s0" and ?F = "targetFrames s0"
  let ?n = "int (length imageDatas)"
  let ?w = "?n mod ?F"
  have start: "capture_invariant ?W ?H ?F [] (startCapture True True s0)"
    by (rule startCapture_begins [OF dims ready])
  then have w0: "writeIndexRef (startCapture True True s0) = Some 0"
    by (simp add: capture_invariant_def)
  have inv: "capture_invariant ?W ?H ?F imageDatas s"
    unfolding s by (rule capture_invariant_capture [OF dims start frames])
  from inv obtain m ring tx where
    st: "targetW s = ?W" "targetH s = ?H" "targetFrames s = ?F"
      "capturingRef s" "videoReady s" "ctxRef s"
    and tx: "colorTextureRef s = Some tx"
    and m: "materialRef s = Some m"
    and w: "writeIndexRef s = Some ?w"
    and ring: "colorDataRef s = Some ring" "length ring = nat (?W * ?H * ?F * 4)"
    and slots: "\<And>l. 0 \<le> l \<Longrightarrow> l < ?F \<Longrightarrow>
        slot_bytes ring (?W * ?H) ((?n + l) mod ?F)
          = (if ?F \<le> ?n + l then stored_frame (imageDatas ! nat (?n + l - ?F))
             else replicate (nat (?W * ?H * 4)) 0)"
    unfolding capture_invariant_def by blast
  have ppf: "0 \<le> ?W * ?H" using dims(1) by (rule less_imp_le)
  have wr: "0 \<le> ?w" "?w < ?F" using dims by simp_all
  let ?ring' = "frame_copy ring (?W * ?H) ?w imageData"
  have run: "colorDataRef (processFrame s imageData) = Some ?ring'"
    using processFrame_running [OF st(4,5,6) ring(1) tx m w, of imageData] st by simp
  have len': "length ?ring' = length ring"
    by (rule frame_copy_nth(1) [OF ppf wr ring(2) frame])
  have written: "slot_bytes ?ring' (?W * ?H) ?w = stored_frame imageData"
    by (rule frame_copy_slot_written [OF ppf wr ring(2) frame])
  have kept: "\<forall>k. 0 \<le> k \<and> k < ?F \<and> k \<noteq> ?w \<longrightarrow>
      slot_bytes ?ring' (?W * ?H) k = slot_bytes ring (?W * ?H) k"
    using frame_copy_slot_kept [OF ppf wr ring(2) frame] by blast
  have "js_rem (?w + 1) ?F = Some ((?w + 1) mod ?F)"
    using wr dims by (intro js_rem_nonneg) simp_all
  then have next_w: "writeIndexRef (processFrame s imageData) = Some ((?w + 1) mod ?F)"
    using processFrame_running [OF st(4,5,6) ring(1) tx m w, of imageData] st by simp
  have logical: "\<forall>l. 0 \<le> l \<and> l < ?F \<longrightarrow>
      (\<exists>k. calcActualFrameIndex l ?w ?F = Some k
         \<and> slot_bytes ring (?W * ?H) k
             = (if ?F \<le> ?n + l then stored_frame (imageDatas ! nat (?n + l - ?F))
                else replicate (nat (?W * ?H * 4)) 0))"
  proof (intro allI impI)
    fix l assume l: "0 \<le> l \<and> l < ?F"
    have "calcActualFrameIndex l ?w ?F = Some ((?w + l) mod ?F)"
      using l wr dims by (simp add: calcActualFrameIndex_def js_rem_nonneg)
    also have "(?w + l) mod ?F = (?n + l) mod ?F" by (simp add: mod_add_left_eq)
    finally show "\<exists>k. calcActualFrameIndex l ?w ?F = Some k
         \<and> slot_bytes ring (?W * ?H) k
             = (if ?F \<le> ?n + l then stored_frame (imageDatas ! nat (?n + l - ?F))
                else replicate (nat (?W * ?H * 4)) 0)"
      using slots [of l] l by simp
  qed
  from w0 w wr ring run len' written kept next_w logical show ?thesis by blast
qed

theorem started_capture_ring_buffer_invariant_witness:
  "targetW example_page = 2 \<and> targetH example_page = 1 \<and> targetFrames example_page = 3
   \<and> sceneReady example_page \<and> videoReady example_page \<and> \<not> capturingRef example_page
   \<and> map length example_frames = [8, 8] \<and> length example_frame = 8
   \<and> writeIndexRef (startCapture True True example_page) = Some 0
   \<and> writeIndexRef (capture (startCapture True True example_page) example_frames) = Some 2
   \<and> writeIndexRef (processFrame (capture (startCapture True True example_page) example_frames)
        example_frame) = Some 0"
proof -
  have c: "targetW example_page = 2" "targetH example_page = 1" "targetFrames example_page = 3"
    "map length example_frames = [8, 8]" "length example_frame = 8"
    by (simp_all add: example_page_def example_frames_def example_frame_def)
  have h: "0 < targetW example_page * targetH example_page" "0 < targetFrames example_page"
    "sceneReady example_page" "videoReady example_page" "\<not> capturingRef example_page"
    "\<forall>d\<in>set example_frames. length d = nat (targetW example_page * targetH example_page * 4)"
    "length example_frame = nat (targetW example_page * targetH example_page * 4)"
    by (simp_all add: example_page_def example_frames_def example_frame_def)
  let ?s = "capture (startCapture True True example_page) example_frames"
  from started_capture_ring_buffer_invariant [OF h refl]
  obtain w where w0: "writeIndexRef (startCapture True True example_page) = Some 0"
    and w: "writeIndexRef ?s = Some w"
    "w = int (length example_frames) mod targetFrames example_page"
    "writeIndexRef (processFrame ?s example_frame) = Some ((w + 1) mod targetFrames example_page)"
    by blast
  have "w = 2" using w(2) by (simp add: example_page_def example_frames_def)
  with w have "writeIndexRef ?s = Some 2" "writeIndexRef (processFrame ?s example_frame) = Some 0"
    by (simp_all add: example_page_def)
  with c h(3,4,5) w0 show ?thesis by blast
qed

lemma initLivePoints_result:
  "fst (initLivePoints True s)
     \<longleftrightarrow> sceneReady s \<and> 0 < calcTotalPoints (targetW s) (targetH s) (targetFrames s)"
  by (simp add: initLivePoints_def Let_def split: prod.splits)

lemma startCapture_started:
  assumes "\<not> capturingRef s0" and "capturingRef (startCapture True True s0)"
  shows "sceneReady s0 \<and> videoReady s0
       \<and> 0 < calcTotalPoints (targetW s0) (targetH s0) (targetFrames s0)"
proof -
  have v: "videoReady s0"
    using assms by (cases "videoReady s0") (simp_all add: startCapture_def stopCapture_def)
  obtain ok s1 where i: "initLivePoints True s0 = (ok, s1)" by (cases "initLivePoints True s0")
  have "ok" using assms v i by (cases ok) (simp_all add: startCapture_def stopCapture_def)
  with i have "fst (initLivePoints True s0)" by simp
  with v show ?thesis by (simp add: initLivePoints_result)
qed

lemma slot_bytes_whole:
  assumes "length ring = nat (ppf * 4)"
  shows "slot_bytes ring ppf 0 = ring"
  using assms by (simp add: slot_bytes_def)

text \<open>
  C8. When totalFrames = 1 the ring buffer is a single, continuously overwritten slot with
  no history: in a capture that has started, after any frames writeIndex is 0 and the
  whole colour data is the last frame stored (zero before the first); every processFrame
  step leaves writeIndex at 0, since (writeIndex + 1) mod 1 = 0, and replaces the whole
  colour data by the frame it stores; and for every writeIndex
  calcActualFrameIndex (0, writeIndex, 1) = 0, so the only logical frame reads slot 0.
\<close>

theorem single_frame_ring_buffer:
  assumes one: "targetFrames s0 = 1"
    and idle: "\<not> capturingRef s0" and started: "capturingRef (startCapture True True s0)"
    and frames: "\<forall>d\<in>set imageDatas. length d = nat (targetW s0 * targetH s0 * 4)"
    and frame: "length imageData = nat (targetW s0 * targetH s0 * 4)"
    and s: "s = capture (startCapture True True s0) imageDatas"
  shows "capturingRef s \<and> writeIndexRef s = Some 0
       \<and> colorDataRef s
           = Some (if imageDatas = [] then replicate (nat (targetW s0 * targetH s0 * 4)) 0
                   else stored_frame (last imageDatas))
       \<and> writeIndexRef (processFrame s imageData) = Some 0
       \<and> colorDataRef (processFrame s imageData) = Some (stored_frame imageData)
       \<and> js_rem (writeIdx + 1) 1 = Some 0
       \<and> calcActualFrameIndex 0 writeIdx 1 = Some 0"
proof -
  let ?W = "targetW s0" and ?H = "targetH s0"
  from startCapture_started [OF idle started]
  have ready: "sceneReady s0" "videoReady s0"
    and tot: "0 < calcTotalPoints ?W ?H (targetFrames s0)" by blast+
  have dims: "0 < ?W * ?H" "0 < targetFrames s0"
    using tot one by (simp_all add: calcTotalPoints_def)
  have start: "capture_invariant ?W ?H (targetFrames s0) [] (startCapture True True s0)"
    by (rule startCapture_begins [OF dims ready idle])
  have inv: "capture_invariant ?W ?H 1 imageDatas s"
    using capture_invariant_capture [OF dims start] frames unfolding s one by blast
  have inv': "capture_invariant ?W ?H 1 (imageDatas @ [imageData]) (processFrame s imageData)"
    using capture_invariant_step [OF dims] inv frame unfolding one by blast
  have content: "colorDataRef t
       = Some (if ds = [] then replicate (nat (?W * ?H * 4)) 0 else stored_frame (last ds))
     \<and> writeIndexRef t = Some 0 \<and> capturingRef t"
    if t: "capture_invariant ?W ?H 1 ds t" for ds t
  proof -
    from t obtain ring where c: "capturingRef t" and w: "writeIndexRef t = Some 0"
      and ring: "colorDataRef t = Some ring" "length ring = nat (?W * ?H * 4)"
      and slots: "\<forall>l. 0 \<le> l \<and> l < 1 \<longrightarrow>
        slot_bytes ring (?W * ?H) ((int (length ds) + l) mod 1)
          = (if 1 \<le> int (length ds) + l then stored_frame (ds ! nat (int (length ds) + l - 1))
             else replicate (nat (?W * ?H * 4)) 0)"
      unfolding capture_invariant_def by auto
    from spec [OF slots, of 0] have "slot_bytes ring (?W * ?H) 0
          = (if 1 \<le> int (length ds) then stored_frame (ds ! nat (int (length ds) - 1))
             else replicate (nat (?W * ?H * 4)) 0)"
      by simp
    then have r: "ring = (if 1 \<le> int (length ds) then stored_frame (ds ! nat (int (length ds) - 1))
             else replicate (nat (?W * ?H * 4)) 0)"
      by (simp only: slot_bytes_whole [OF ring(2)])
    have "ring = (if ds = [] then replicate (nat (?W * ?H * 4)) 0 else stored_frame (last ds))"
    proof (cases "ds = []")
      case True
      with r show ?thesis by simp
    next
      case False
      then have "1 \<le> int (length ds)" by (cases ds) simp_all
      moreover have "ds ! nat (int (length ds) - 1) = last ds"
        using False by (simp add: last_conv_nth nat_diff_distrib')
      ultimately show ?thesis using r False by simp
    qed
    with ring c w show ?thesis by simp
  qed
  from content [OF inv] content [OF inv'] show ?thesis
    by (simp add: js_rem_one calcActualFrameIndex_def)
qed

theorem single_frame_ring_buffer_witness:
  "targetFrames single_slot_page = 1 \<and> \<not> capturingRef single_slot_page
   \<and> capturingRef (startCapture True True single_slot_page)
   \<and> map length example_frames = [8, 8] \<and> length example_frame = 8
   \<and> nat (targetW single_slot_page * targetH single_slot_page * 4) = 8
   \<and> writeIndexRef (capture (startCapture True True single_slot_page) example_frames) = Some 0
   \<and> colorDataRef (capture (startCapture True True single_slot_page) example_frames)
        = Some [11, 12, 13, 255, 15, 16, 17, 255]
   \<and> writeIndexRef (processFrame (capture (startCapture True True single_slot_page) example_frames)
        example_frame) = Some 0
   \<and> colorDataRef (processFrame (capture (startCapture True True single_slot_page) example_frames)
        example_frame) = Some [21, 22, 23, 255, 25, 26, 27, 255]
   \<and> calcActualFrameIndex 0 0 1 = Some 0"
proof -
  let ?p = "single_slot_page"
  have "capture_invariant (targetW ?p) (targetH ?p) (targetFrames ?p) [] (startCapture True True ?p)"
    by (rule startCapture_begins) (simp_all add: single_slot_page_def example_page_def)
  then have st: "capturingRef (startCapture True True ?p)"
    by (simp add: capture_invariant_def)
  have h: "targetFrames ?p = 1" "\<not> capturingRef ?p"
    by (simp_all add: single_slot_page_def example_page_def)
  have f: "\<forall>d\<in>set example_frames. length d = nat (targetW ?p * targetH ?p * 4)"
    "length example_frame = nat (targetW ?p * targetH ?p * 4)"
    by (simp_all add: single_slot_page_def example_page_def example_frames_def example_frame_def)
  have c: "map length example_frames = [8, 8]" "length example_frame = 8"
    "nat (targetW ?p * targetH ?p * 4) = 8"
    by (simp_all add: single_slot_page_def example_page_def example_frames_def example_frame_def)
  have l: "stored_frame (last example_frames) = [11, 12, 13, 255, 15, 16, 17, 255]"
    "stored_frame example_frame = [21, 22, 23, 255, 25, 26, 27, 255]"
    "example_frames \<noteq> []"
    by (simp_all add: example_frames_def example_frame_def stored_frame_def upt_conv_Cons)
  from single_frame_ring_buffer [OF h st f refl, of 0] h st c l
  show ?thesis by simp
qed

text \<open>
  C3. The claim is that, starting from writeIndex = 0, every processFrame step writes the
  bytes of slot writeIndex and advances writeIndex modulo totalFrames, so that
  0 \<le> writeIndex < totalFrames in every reachable state.  With width 2, height -1 and
  -3 frames the product of the three is 6, \<open>initLivePoints\<close> accepts the configuration
  and the capture starts; two processFrame steps later writeIndex is 2 while totalFrames is
  -3, and no byte of the colour data has been written.
\<close>

theorem negative_frame_count_breaks_ring_invariant:
  "targetW negative_frames_page = 2 \<and> targetH negative_frames_page = - 1
   \<and> targetFrames negative_frames_page = - 3
   \<and> fst (initLivePoints True negative_frames_page) = True
   \<and> capturingRef (startCapture True True negative_frames_page)
   \<and> writeIndexRef (startCapture True True negative_frames_page) = Some 0
   \<and> colorDataRef (startCapture True True negative_frames_page) = Some (replicate 24 0)
   \<and> writeIndexRef (capture (startCapture True True negative_frames_page) example_frames) = Some 2
   \<and> targetFrames (capture (startCapture True True negative_frames_page) example_frames) = - 3
   \<and> colorDataRef (capture (startCapture True True negative_frames_page) example_frames)
        = Some (replicate 24 0)"
proof -
  let ?p = "negative_frames_page"
  have fl: "for_loop 0 (- 3) body st = st" "for_loop 0 (- 2) body' st' = st'"
    for body :: "int \<Rightarrow> 'a \<Rightarrow> 'a" and st :: 'a and body' :: "int \<Rightarrow> 'b \<Rightarrow> 'b" and st' :: 'b
    by (simp_all add: for_loop.simps [of 0])
  have r: "js_rem 1 (- 3) = Some 1" "js_rem 2 (- 3) = Some 2"
    by (simp_all add: js_rem_def)
  have start: "startCapture True True ?p =
     ?p\<lparr> ctxRef := True, capturingRef := True,
         pointsRef := Some \<lparr> positions = replicate 18 0, frameIndices = replicate 6 0,
                              pixelIndices = replicate 6 0 \<rparr>,
         materialRef := Some \<lparr> uWriteIndex = Some 0, uTotalFrames = - 3,
                                uPixelsPerFrame = - 2 \<rparr>,
         colorTextureRef := Some True, colorDataRef := Some (replicate 24 0),
         writeIndexRef := Some 0, frameCountRef := 0, status := StatusCaptureStarted \<rparr>"
    by (simp add: startCapture_def initLivePoints_def negative_frames_page_def example_page_def
        calcTotalPoints_def disposePoints_def Let_def fl)
  have i: "fst (initLivePoints True ?p) = True"
    by (simp add: initLivePoints_result negative_frames_page_def example_page_def
        calcTotalPoints_def)
  show ?thesis
    unfolding start using i
    by (simp add: capture_def example_frames_def processFrame_def Let_def fl r
        negative_frames_page_def example_page_def)
qed

text \<open>
  C6. The claim is that initLivePoints rejects every configuration in which a dimension is
  \<le> 0 before it allocates any buffer.  With width -1, height -1 and one frame the
  product of the three is 1, the guard passes, and initLivePoints returns true with the
  position and index arrays and the colour ring buffer allocated.
\<close>

theorem initLivePoints_accepts_two_negative_dimensions:
  "targetW negative_page = - 1 \<and> targetH negative_page = - 1 \<and> targetFrames negative_page = 1
   \<and> fst (initLivePoints True negative_page) = True
   \<and> status (snd (initLivePoints True negative_page)) = StatusNone
   \<and> pointsRef (snd (initLivePoints True negative_page))
        = Some \<lparr> positions = [0, 0, 0], frameIndices = [0], pixelIndices = [0] \<rparr>
   \<and> colorDataRef (snd (initLivePoints True negative_page)) = Some [0, 0, 0, 0]"
proof -
  have r: "replicate 3 (0::rat) = [0, 0, 0]" "replicate 4 (0::byte) = [0, 0, 0, 0]"
    by (simp_all add: numeral_eq_Suc)
  show ?thesis
    by (simp add: negative_page_def example_page_def initLivePoints_def calcTotalPoints_def
        disposePoints_def Let_def for_loop.simps [of 0] for_loop.simps [of 1] r)
qed

end
